theory Spec2Isabelle
  imports Main "HOL-Library.Word"
begin

section \<open>Go strings and the library calls made by dlog.go\<close>

text \<open>
  A Go string is a sequence of bytes, so it is modelled as \<^typ>\<open>string\<close>, whose
  characters are 8-bit. The functions of this section are the calls that
  \<^verbatim>\<open>dlog.go\<close> makes into the Go standard library (\<^verbatim>\<open>strings\<close>, \<^verbatim>\<open>strconv\<close>, \<^verbatim>\<open>fmt\<close>),
  written out as far as the logging code depends on them.
\<close>

subsection \<open>strings.TrimSuffix and strings.TrimSpace\<close>

definition TrimSuffix :: "string \<Rightarrow> string \<Rightarrow> string" where
  "TrimSuffix s suffix =
     (if length suffix \<le> length s \<and> drop (length s - length suffix) s = suffix
      then take (length s - length suffix) s
      else s)"

text \<open>
  \<^verbatim>\<open>unicode.IsSpace\<close> accepts the code points U+0009..U+000D, U+0020, U+0085, U+00A0,
  U+1680, U+2000..U+200A, U+2028, U+2029, U+202F, U+205F and U+3000. On a byte string
  these are exactly the following UTF-8 encodings; any other byte sequence decodes to
  a rune that is not white space (an invalid byte decodes to U+FFFD, of width one).
\<close>

definition spaceEncodings :: "string list" where
  "spaceEncodings =
     [[CHR 0x09], [CHR 0x0A], [CHR 0x0B], [CHR 0x0C], [CHR 0x0D], [CHR 0x20],
      [CHR 0xC2, CHR 0x85], [CHR 0xC2, CHR 0xA0],
      [CHR 0xE1, CHR 0x9A, CHR 0x80],
      [CHR 0xE2, CHR 0x80, CHR 0x80], [CHR 0xE2, CHR 0x80, CHR 0x81], [CHR 0xE2, CHR 0x80, CHR 0x82],
      [CHR 0xE2, CHR 0x80, CHR 0x83], [CHR 0xE2, CHR 0x80, CHR 0x84], [CHR 0xE2, CHR 0x80, CHR 0x85],
      [CHR 0xE2, CHR 0x80, CHR 0x86], [CHR 0xE2, CHR 0x80, CHR 0x87], [CHR 0xE2, CHR 0x80, CHR 0x88],
      [CHR 0xE2, CHR 0x80, CHR 0x89], [CHR 0xE2, CHR 0x80, CHR 0x8A], [CHR 0xE2, CHR 0x80, CHR 0xA8],
      [CHR 0xE2, CHR 0x80, CHR 0xA9], [CHR 0xE2, CHR 0x80, CHR 0xAF], [CHR 0xE2, CHR 0x81, CHR 0x9F],
      [CHR 0xE3, CHR 0x80, CHR 0x80]]"

text \<open>Width in bytes of the white-space rune a string starts (ends) with; 0 when there is none.\<close>

definition leadingSpace :: "string \<Rightarrow> nat" where
  "leadingSpace s =
     (case find (\<lambda>e. take (length e) s = e) spaceEncodings of
        None \<Rightarrow> 0
      | Some e \<Rightarrow> length e)"

definition trailingSpace :: "string \<Rightarrow> nat" where
  "trailingSpace s =
     (case find (\<lambda>e. length e \<le> length s \<and> drop (length s - length e) s = e) spaceEncodings of
        None \<Rightarrow> 0
      | Some e \<Rightarrow> length e)"

lemma leadingSpace_Nil: "leadingSpace [] = 0"
  by (simp add: leadingSpace_def spaceEncodings_def)

lemma trailingSpace_Nil: "trailingSpace [] = 0"
  by (simp add: trailingSpace_def spaceEncodings_def)

function TrimLeftSpace :: "string \<Rightarrow> string" where
  "TrimLeftSpace s =
     (if leadingSpace s = 0 then s else TrimLeftSpace (drop (leadingSpace s) s))"
  by pat_completeness auto
termination
proof (relation "measure length")
  show "wf (measure length)" by simp
next
  fix s :: string
  assume "leadingSpace s \<noteq> 0"
  then have "s \<noteq> []" using leadingSpace_Nil by auto
  with \<open>leadingSpace s \<noteq> 0\<close>
  show "(drop (leadingSpace s) s, s) \<in> measure length" by simp
qed

function TrimRightSpace :: "string \<Rightarrow> string" where
  "TrimRightSpace s =
     (if trailingSpace s = 0 then s
      else TrimRightSpace (take (length s - trailingSpace s) s))"
  by pat_completeness auto
termination
proof (relation "measure length")
  show "wf (measure length)" by simp
next
  fix s :: string
  assume "trailingSpace s \<noteq> 0"
  then have "s \<noteq> []" using trailingSpace_Nil by auto
  with \<open>trailingSpace s \<noteq> 0\<close>
  show "(take (length s - trailingSpace s) s, s) \<in> measure length" by simp
qed

declare TrimLeftSpace.simps [simp del]
declare TrimRightSpace.simps [simp del]

definition TrimSpace :: "string \<Rightarrow> string" where
  "TrimSpace s = TrimRightSpace (TrimLeftSpace s)"

subsection \<open>Decimal rendering: strconv.FormatInt and the integer verbs of fmt\<close>

definition digitChar :: "nat \<Rightarrow> char" where
  "digitChar d = char_of (48 + d)"

function digits :: "nat \<Rightarrow> string" where
  "digits n = (if n < 10 then [digitChar n] else digits (n div 10) @ [digitChar (n mod 10)])"
  by pat_completeness auto
termination
  by (relation "measure id") auto

declare digits.simps [simp del]

text \<open>\<^verbatim>\<open>strconv.FormatInt(v, 10)\<close>, which is also what the verb \<^verbatim>\<open>%d\<close> prints.\<close>

definition FormatInt :: "int \<Rightarrow> string" where
  "FormatInt v = (if v < 0 then CHR ''-'' # digits (nat (- v)) else digits (nat v))"

text \<open>
  The verb \<^verbatim>\<open>%0wd\<close>: the digits are padded with zeros to the width, and a sign takes one
  column of the width.
\<close>

definition zeroPad :: "nat \<Rightarrow> string \<Rightarrow> string" where
  "zeroPad w ds = replicate (w - length ds) CHR ''0'' @ ds"

definition FormatIntPadded :: "nat \<Rightarrow> int \<Rightarrow> string" where
  "FormatIntPadded w v =
     (if v < 0 then CHR ''-'' # zeroPad (w - 1) (digits (nat (- v)))
      else zeroPad w (digits (nat v)))"

subsection \<open>strconv.Atoi\<close>

datatype NumError = ErrSyntax | ErrRange

text \<open>
  The loop of the fast path of \<^verbatim>\<open>Atoi\<close>: \<^verbatim>\<open>ch -= '0'\<close> is byte arithmetic, so it wraps
  modulo 256; \<open>None\<close> is the syntax error.
\<close>

fun atoiFast :: "int \<Rightarrow> string \<Rightarrow> int option" where
  "atoiFast n [] = Some n"
| "atoiFast n (ch # rest) =
     (let d = (of_char ch + 256 - 48) mod 256 :: nat
      in if d > 9 then None else atoiFast (n * 10 + int d) rest)"

text \<open>
  The loop of \<^verbatim>\<open>ParseUint\<close> in base 10 over \<^verbatim>\<open>uint64\<close>: a byte that is not a decimal
  digit is a syntax error (result 0); an overflow is a range error (result \<open>maxVal\<close>),
  and it is reported as soon as it is met, before the bytes that follow are looked at.
\<close>

definition cutoff64 :: nat where
  "cutoff64 = (2 ^ 64 - 1) div 10 + 1"

fun parseUintLoop :: "nat \<Rightarrow> nat \<Rightarrow> string \<Rightarrow> nat \<times> NumError option" where
  "parseUintLoop maxVal n [] = (n, None)"
| "parseUintLoop maxVal n (c # rest) =
     (if \<not> (48 \<le> (of_char c :: nat) \<and> (of_char c :: nat) \<le> 57) then (0, Some ErrSyntax)
      else
        let d = (of_char c :: nat) - 48 in
        if n \<ge> cutoff64 then (maxVal, Some ErrRange)
        else
          let n' = n * 10;
              n1 = (n' + d) mod 2 ^ 64
          in if n1 < n' \<or> n1 > maxVal then (maxVal, Some ErrRange)
             else parseUintLoop maxVal n1 rest)"

definition ParseUint :: "nat \<Rightarrow> string \<Rightarrow> nat \<times> NumError option" where
  "ParseUint bitSize s =
     (if s = [] then (0, Some ErrSyntax)
      else parseUintLoop (2 ^ bitSize - 1) 0 s)"

definition ParseInt :: "nat \<Rightarrow> string \<Rightarrow> int \<times> NumError option" where
  "ParseInt bitSize s0 =
     (if s0 = [] then (0, Some ErrSyntax)
      else
        let neg = (hd s0 = CHR ''-'');
            s = (if hd s0 = CHR ''+'' \<or> hd s0 = CHR ''-'' then tl s0 else s0);
            (un, err) = ParseUint bitSize s
        in if err = Some ErrSyntax then (0, err)
           else
             let cutoff = (2 :: nat) ^ (bitSize - 1) in
             if \<not> neg \<and> un \<ge> cutoff then (int (cutoff - 1), Some ErrRange)
             else if neg \<and> un > cutoff then (- int cutoff, Some ErrRange)
             else (if neg then - int un else int un, None))"

text \<open>Conversion of an \<^verbatim>\<open>int64\<close> to a signed integer of the given width (two's complement).\<close>

definition wrapSigned :: "nat \<Rightarrow> int \<Rightarrow> int" where
  "wrapSigned bits v = (v + 2 ^ (bits - 1)) mod 2 ^ bits - 2 ^ (bits - 1)"

text \<open>
  The fast path of \<^verbatim>\<open>Atoi\<close>, taken for short strings: an optional sign, then the loop over
  the bytes.
\<close>

definition atoiFastPath :: "string \<Rightarrow> int \<times> NumError option" where
  "atoiFastPath s0 =
     (let signed = (hd s0 = CHR ''-'' \<or> hd s0 = CHR ''+'');
          s = (if signed then tl s0 else s0)
      in if signed \<and> length s < 1 then (0, Some ErrSyntax)
         else (case atoiFast 0 s of
                 None \<Rightarrow> (0, Some ErrSyntax)
               | Some n \<Rightarrow> (if hd s0 = CHR ''-'' then - n else n, None)))"

text \<open>
  \<^verbatim>\<open>Atoi\<close> for a platform whose \<^verbatim>\<open>int\<close> has \<open>intSize\<close> bits (32 or 64): short strings take
  the fast path, all others go through \<^verbatim>\<open>ParseInt(s, 10, 0)\<close>, whose result is converted
  to \<^verbatim>\<open>int\<close>.
\<close>

definition Atoi :: "nat \<Rightarrow> string \<Rightarrow> int \<times> NumError option" where
  "Atoi intSize s0 =
     (let sLen = length s0 in
      if (intSize = 32 \<and> 0 < sLen \<and> sLen < 10) \<or> (intSize = 64 \<and> 0 < sLen \<and> sLen < 19)
      then atoiFastPath s0
      else
        let (i64, err) = ParseInt intSize s0
        in (wrapSigned intSize i64, err))"

section \<open>The data model of dlog.go\<close>

subsection \<open>Severity\<close>

text \<open>\<^verbatim>\<open>type Severity int32\<close>; the comparisons of the code are signed.\<close>

type_synonym Severity = "32 word"

definition SeverityDebug :: Severity where "SeverityDebug = 0"
definition SeverityInfo :: Severity where "SeverityInfo = 1"
definition SeverityNotice :: Severity where "SeverityNotice = 2"
definition SeverityWarning :: Severity where "SeverityWarning = 3"
definition SeverityError :: Severity where "SeverityError = 4"
definition SeverityCritical :: Severity where "SeverityCritical = 5"
definition SeverityFatal :: Severity where "SeverityFatal = 6"
definition SeverityLast :: Severity where "SeverityLast = 7"

lemmas Severity_defs =
  SeverityDebug_def SeverityInfo_def SeverityNotice_def SeverityWarning_def
  SeverityError_def SeverityCritical_def SeverityFatal_def SeverityLast_def

definition SeverityName :: "string list" where
  "SeverityName = [''DEBUG'', ''INFO'', ''NOTICE'', ''WARNING'', ''ERROR'', ''CRITICAL'', ''FATAL'']"

text \<open>The priorities of the system-logger client (\<^verbatim>\<open>gsyslog.Priority\<close>).\<close>

datatype Priority =
  LOG_EMERG | LOG_ALERT | LOG_CRIT | LOG_ERR | LOG_WARNING | LOG_NOTICE | LOG_INFO | LOG_DEBUG

definition severityToSyslogPriority :: "Priority list" where
  "severityToSyslogPriority =
     [LOG_DEBUG, LOG_INFO, LOG_NOTICE, LOG_WARNING, LOG_ERR, LOG_CRIT, LOG_ALERT]"

text \<open>
  Indexing a slice by a \<^verbatim>\<open>Severity\<close>: Go panics when the index is negative or not below
  the length; \<open>None\<close> is that panic.
\<close>

definition index :: "'a list \<Rightarrow> Severity \<Rightarrow> 'a option" where
  "index xs s =
     (if 0 \<le> sint s \<and> sint s < int (length xs) then Some (xs ! nat (sint s)) else None)"

text \<open>The atomic load and store of the threshold, and the two methods of \<^verbatim>\<open>flag.Value\<close>.\<close>

definition Severity_get :: "Severity \<Rightarrow> Severity" where
  "Severity_get s = s"

definition Severity_set :: "Severity \<Rightarrow> Severity \<Rightarrow> Severity" where
  "Severity_set s val = val"

definition Severity_String :: "Severity \<Rightarrow> string" where
  "Severity_String s = FormatInt (sint s)"

text \<open>
  \<^verbatim>\<open>Set\<close> drops the error of \<^verbatim>\<open>Atoi\<close>, converts the \<^verbatim>\<open>int\<close> to \<^verbatim>\<open>int32\<close> (keeping the low 32
  bits) and returns \<^verbatim>\<open>nil\<close>: the result is the new threshold and the returned error.
\<close>

definition Severity_Set :: "nat \<Rightarrow> Severity \<Rightarrow> string \<Rightarrow> Severity \<times> NumError option" where
  "Severity_Set intSize s strVal =
     (let val = fst (Atoi intSize strVal)
      in (Severity_set s (word_of_int val), None))"

subsection \<open>The process-wide state\<close>

text \<open>
  A pointer field is an option: \<open>None\<close> is \<^verbatim>\<open>nil\<close>. For \<open>useSyslog\<close> and \<open>fileName\<close>, which
  point into the storage of the flag package, \<open>Some v\<close> carries the value currently
  stored there. The handles of the system-logger client and of the open file are
  numbers given by the environment.
\<close>

record globals =
  logLevel :: Severity
  useSyslog :: "bool option"
  appName :: string
  syslogFacility :: string
  syslogger :: "nat option"
  fileName :: "string option"
  outFd :: "nat option"

definition globals0 :: globals where
  "globals0 =
     \<lparr> logLevel = SeverityLast, useSyslog = None, appName = ''-'', syslogFacility = [],
       syslogger = None, fileName = None, outFd = None \<rparr>"

subsection \<open>Effects, outcomes and the environment\<close>

datatype OpenFlag = O_WRONLY | O_APPEND | O_CREATE

text \<open>
  What a call does to the world, in order: the mutex, the construction of the
  system-logger client, the opening of the file, the writes, and the exit of the process.
\<close>

datatype event =
    Lock
  | Unlock
  | NewLogger Priority string string
  | OpenFile string "OpenFlag list" nat
  | WriteLevel nat Priority string
  | FileWriteString nat string
  | FileSync nat
  | StderrWriteString string
  | Exit nat

datatype panic =
    NilDereference
  | IndexOutOfRange
  | PanicErr string
  | FlagRedefined string

datatype outcome = Returned | Exited nat | Panicked panic

text \<open>
  The answers of the collaborators at the time of a call: \<^verbatim>\<open>gsyslog.NewLogger\<close> and
  \<^verbatim>\<open>os.OpenFile\<close> return a handle (\<open>Inr\<close>) or an error (\<open>Inl\<close>).
\<close>

record env =
  newLogger :: "Priority \<Rightarrow> string \<Rightarrow> string \<Rightarrow> string + nat"
  openFile :: "string \<Rightarrow> string + nat"

text \<open>The reading of \<^verbatim>\<open>time.Now()\<close>: the results of \<^verbatim>\<open>Date()\<close> and \<^verbatim>\<open>Clock()\<close>.\<close>

record wallclock =
  year :: int
  month :: int
  day :: int
  hour :: int
  minute :: int
  second :: int

section \<open>Init\<close>

text \<open>
  \<^verbatim>\<open>flag.Bool\<close>, \<^verbatim>\<open>flag.String\<close> and \<^verbatim>\<open>flag.Var\<close> register a name in the command-line flag set and
  panic when the name is already defined there; \<open>fl\<close> is the set of defined names.
  The assignments made before such a panic stay. The result carries the error that
  \<^verbatim>\<open>Init\<close> returns (\<open>None\<close> is \<^verbatim>\<open>nil\<close>).
\<close>

datatype 'e returned = Return 'e | Panic panic

definition Init ::
  "string \<Rightarrow> Severity \<Rightarrow> string \<Rightarrow> string set \<times> globals \<Rightarrow>
     string option returned \<times> string set \<times> globals" where
  "Init appName' logLevel' syslogFacility' st =
     (let fl = fst st;
          g1 = (snd st)\<lparr>logLevel := Severity_set (logLevel (snd st)) logLevel'\<rparr>;
          facility = (if length syslogFacility' = 0 then ''DAEMON'' else syslogFacility');
          g2 = g1\<lparr>appName := appName', syslogFacility := facility\<rparr>
      in if ''syslog'' \<in> fl then (Panic (FlagRedefined ''syslog''), fl, g2)
         else
           let g3 = g2\<lparr>useSyslog := Some False\<rparr>;
               fl3 = insert ''syslog'' fl
           in if ''logfile'' \<in> fl3 then (Panic (FlagRedefined ''logfile''), fl3, g3)
              else
                let g4 = g3\<lparr>fileName := Some []\<rparr>;
                    fl4 = insert ''logfile'' fl3
                in if ''loglevel'' \<in> fl4 then (Panic (FlagRedefined ''loglevel''), fl4, g4)
                   else (Return None, insert ''loglevel'' fl4, g4))"

section \<open>logf\<close>

text \<open>Lines 173 to 179: the system-logger client is constructed when asked for and absent.\<close>

definition resolveSyslogger :: "env \<Rightarrow> globals \<Rightarrow> (panic + globals) \<times> event list" where
  "resolveSyslogger e g =
     (case useSyslog g of
        None \<Rightarrow> (Inl NilDereference, [])
      | Some us \<Rightarrow>
          if us \<and> syslogger g = None then
            (case newLogger e LOG_INFO (syslogFacility g) (appName g) of
               Inl err \<Rightarrow> (Inl (PanicErr err), [NewLogger LOG_INFO (syslogFacility g) (appName g)])
             | Inr h \<Rightarrow>
                 (Inr (g\<lparr>syslogger := Some h\<rparr>),
                  [NewLogger LOG_INFO (syslogFacility g) (appName g)]))
          else (Inr g, []))"

text \<open>
  Lines 180 to 186: the file is opened when a non-empty path is set and no handle
  exists. The mode \<^verbatim>\<open>0644\<close> (octal) is 420.
\<close>

definition resolveOutFd :: "env \<Rightarrow> globals \<Rightarrow> (panic + globals) \<times> event list" where
  "resolveOutFd e g =
     (case fileName g of
        None \<Rightarrow> (Inr g, [])
      | Some path \<Rightarrow>
          if length path > 0 \<and> outFd g = None then
            (case openFile e path of
               Inl err \<Rightarrow> (Inl (PanicErr err), [OpenFile path [O_WRONLY, O_APPEND, O_CREATE] 420])
             | Inr fd \<Rightarrow>
                 (Inr (g\<lparr>outFd := Some fd\<rparr>),
                  [OpenFile path [O_WRONLY, O_APPEND, O_CREATE] 420]))
          else (Inr g, []))"

text \<open>The line of line 190.\<close>

definition formatLine :: "wallclock \<Rightarrow> string \<Rightarrow> string \<Rightarrow> string \<Rightarrow> string" where
  "formatLine now app name message =
     ''['' @ FormatInt (year now) @ ''-'' @ FormatIntPadded 2 (month now) @ ''-'' @
     FormatIntPadded 2 (day now) @ '' '' @ FormatIntPadded 2 (hour now) @ '':'' @
     FormatIntPadded 2 (minute now) @ '':'' @ FormatIntPadded 2 (second now) @
     ''] ['' @ app @ ''] ['' @ name @ ''] '' @ message @ [CHR 0x0A]"

text \<open>Lines 187 to 197: the write, to the system logger if there is one, else to the file or standard error.\<close>

definition writeRecord ::
  "wallclock \<Rightarrow> Severity \<Rightarrow> string \<Rightarrow> globals \<Rightarrow> panic option \<times> event list" where
  "writeRecord now severity message g =
     (case syslogger g of
        Some h \<Rightarrow>
          (case index severityToSyslogPriority severity of
             None \<Rightarrow> (Some IndexOutOfRange, [])
           | Some prio \<Rightarrow> (None, [WriteLevel h prio message]))
      | None \<Rightarrow>
          (case index SeverityName severity of
             None \<Rightarrow> (Some IndexOutOfRange, [])
           | Some name \<Rightarrow>
               let line = formatLine now (appName g) name message in
               (case outFd g of
                  Some fd \<Rightarrow> (None, [FileWriteString fd line, FileSync fd])
                | None \<Rightarrow> (None, [StderrWriteString line]))))"

text \<open>
  \<open>logf\<close>: \<open>rendered\<close> is the result of \<^verbatim>\<open>fmt.Sprintf(format, args...)\<close>. The deferred
  \<^verbatim>\<open>Unlock\<close> runs on return and on panic; \<^verbatim>\<open>os.Exit\<close> runs no deferred call.
\<close>

definition logf ::
  "env \<Rightarrow> wallclock \<Rightarrow> Severity \<Rightarrow> string \<Rightarrow> globals \<Rightarrow> outcome \<times> globals \<times> event list" where
  "logf e now severity rendered g =
     (if sint severity < sint (Severity_get (logLevel g)) then (Returned, g, [])
      else
        let message = TrimSpace (TrimSuffix rendered [CHR 0x0A]) in
        if length message \<le> 0 then (Returned, g, [])
        else
          (case resolveSyslogger e g of
             (Inl p, ev1) \<Rightarrow> (Panicked p, g, [Lock] @ ev1 @ [Unlock])
           | (Inr g1, ev1) \<Rightarrow>
               (case resolveOutFd e g1 of
                  (Inl p, ev2) \<Rightarrow> (Panicked p, g1, [Lock] @ ev1 @ ev2 @ [Unlock])
                | (Inr g2, ev2) \<Rightarrow>
                    (case writeRecord now severity message g2 of
                       (Some p, ev3) \<Rightarrow> (Panicked p, g2, [Lock] @ ev1 @ ev2 @ ev3 @ [Unlock])
                     | (None, ev3) \<Rightarrow>
                         if sint severity \<ge> sint SeverityFatal
                         then (Exited 255, g2, [Lock] @ ev1 @ ev2 @ ev3 @ [Exit 255])
                         else (Returned, g2, [Lock] @ ev1 @ ev2 @ ev3 @ [Unlock])))))"

section \<open>The public functions\<close>

text \<open>
  \<open>log\<close> calls \<open>logf\<close> with the format \<^verbatim>\<open>%v\<close>; its \<open>rendered\<close> is the default rendering of
  the value.
\<close>

definition log ::
  "env \<Rightarrow> wallclock \<Rightarrow> Severity \<Rightarrow> string \<Rightarrow> globals \<Rightarrow> outcome \<times> globals \<times> event list" where
  "log e now severity rendered g = logf e now severity rendered g"

datatype api =
    Debugf | Infof | Noticef | Warnf | Errorf | Criticalf | Fatalf
  | Debug | Info | Notice | Warn | Error | Critical | Fatal

fun call ::
  "api \<Rightarrow> env \<Rightarrow> wallclock \<Rightarrow> string \<Rightarrow> globals \<Rightarrow> outcome \<times> globals \<times> event list" where
  "call Debugf e now rendered g = logf e now SeverityDebug rendered g"
| "call Infof e now rendered g = logf e now SeverityInfo rendered g"
| "call Noticef e now rendered g = logf e now SeverityNotice rendered g"
| "call Warnf e now rendered g = logf e now SeverityWarning rendered g"
| "call Errorf e now rendered g = logf e now SeverityError rendered g"
| "call Criticalf e now rendered g = logf e now SeverityCritical rendered g"
| "call Fatalf e now rendered g = logf e now SeverityFatal rendered g"
| "call Debug e now rendered g = log e now SeverityDebug rendered g"
| "call Info e now rendered g = log e now SeverityInfo rendered g"
| "call Notice e now rendered g = log e now SeverityNotice rendered g"
| "call Warn e now rendered g = log e now SeverityWarning rendered g"
| "call Error e now rendered g = log e now SeverityError rendered g"
| "call Critical e now rendered g = log e now SeverityCritical rendered g"
| "call Fatal e now rendered g = log e now SeverityFatal rendered g"

text \<open>The severity a public function passes on.\<close>

fun severityOf :: "api \<Rightarrow> Severity" where
  "severityOf Debugf = SeverityDebug"
| "severityOf Infof = SeverityInfo"
| "severityOf Noticef = SeverityNotice"
| "severityOf Warnf = SeverityWarning"
| "severityOf Errorf = SeverityError"
| "severityOf Criticalf = SeverityCritical"
| "severityOf Fatalf = SeverityFatal"
| "severityOf Debug = SeverityDebug"
| "severityOf Info = SeverityInfo"
| "severityOf Notice = SeverityNotice"
| "severityOf Warn = SeverityWarning"
| "severityOf Error = SeverityError"
| "severityOf Critical = SeverityCritical"
| "severityOf Fatal = SeverityFatal"

section \<open>The life of a process\<close>

text \<open>
  What happens to the logging state during the life of a process: calls of the public
  functions and of \<open>Init\<close>, and the flag parser storing a value through one of the three
  hooks that \<open>Init\<close> registers (the two pointers, and \<open>Set\<close> on the threshold). A
  process that exits or panics takes no further step.
\<close>

datatype action =
    Call api env wallclock string
  | CallInit string Severity string
  | FlagSyslog bool
  | FlagLogfile string
  | FlagLoglevel string

fun step ::
  "nat \<Rightarrow> string set \<times> globals \<Rightarrow> action \<Rightarrow> outcome \<times> (string set \<times> globals) \<times> event list" where
  "step intSize (fl, g) (Call f e now rendered) =
     (case call f e now rendered g of (oc, g', ev) \<Rightarrow> (oc, (fl, g'), ev))"
| "step intSize (fl, g) (CallInit app lvl fac) =
     (case Init app lvl fac (fl, g) of
        (Return err, st') \<Rightarrow> (Returned, st', [])
      | (Panic p, st') \<Rightarrow> (Panicked p, st', []))"
| "step intSize (fl, g) (FlagSyslog b) =
     (Returned, (fl, g\<lparr>useSyslog := map_option (\<lambda>old. b) (useSyslog g)\<rparr>), [])"
| "step intSize (fl, g) (FlagLogfile path) =
     (Returned, (fl, g\<lparr>fileName := map_option (\<lambda>old. path) (fileName g)\<rparr>), [])"
| "step intSize (fl, g) (FlagLoglevel strVal) =
     (Returned, (fl, g\<lparr>logLevel := fst (Severity_Set intSize (logLevel g) strVal)\<rparr>), [])"

fun run ::
  "nat \<Rightarrow> string set \<times> globals \<Rightarrow> action list \<Rightarrow> outcome \<times> (string set \<times> globals) \<times> event list" where
  "run intSize st [] = (Returned, st, [])"
| "run intSize st (a # as) =
     (case step intSize st a of
        (Returned, st', ev) \<Rightarrow>
          (case run intSize st' as of (oc, st'', ev') \<Rightarrow> (oc, st'', ev @ ev'))
      | (oc, st', ev) \<Rightarrow> (oc, st', ev))"

section \<open>Reading a trace\<close>

text \<open>The writes of a trace, its file openings and its constructions of a system-logger client.\<close>

fun isWrite :: "event \<Rightarrow> bool" where
  "isWrite (WriteLevel h p m) = True"
| "isWrite (FileWriteString fd l) = True"
| "isWrite (StderrWriteString l) = True"
| "isWrite other = False"

fun isOpenFile :: "event \<Rightarrow> bool" where
  "isOpenFile (OpenFile path flags perm) = True"
| "isOpenFile other = False"

fun isNewLogger :: "event \<Rightarrow> bool" where
  "isNewLogger (NewLogger p facility tag) = True"
| "isNewLogger other = False"

definition writes :: "event list \<Rightarrow> event list" where
  "writes evs = filter isWrite evs"

definition opens :: "event list \<Rightarrow> event list" where
  "opens evs = filter isOpenFile evs"

definition constructions :: "event list \<Rightarrow> event list" where
  "constructions evs = filter isNewLogger evs"

text \<open>The trimmed message of a call.\<close>

definition trimmed :: "string \<Rightarrow> string" where
  "trimmed rendered = TrimSpace (TrimSuffix rendered [CHR 0x0A])"

section \<open>Example inputs\<close>

definition envOk :: env where
  "envOk = \<lparr> newLogger = (\<lambda>p facility tag. Inr 1), openFile = (\<lambda>path. Inr 3) \<rparr>"

definition envDenied :: env where
  "envDenied =
     \<lparr> newLogger = (\<lambda>p facility tag. Inl ''no syslog''), openFile = (\<lambda>path. Inl ''denied'') \<rparr>"

definition clock0 :: wallclock where
  "clock0 = \<lparr> year = 2018, month = 3, day = 7, hour = 9, minute = 5, second = 0 \<rparr>"

text \<open>
  States as \<open>Init\<close> and the flag parser leave them: threshold \<open>Debug\<close>, and standard
  error, a log file, or the system logger together with a log file asked for.
\<close>

definition gStderr :: globals where
  "gStderr =
     \<lparr> logLevel = SeverityDebug, useSyslog = Some False, appName = ''myapp'',
       syslogFacility = ''DAEMON'', syslogger = None, fileName = Some [], outFd = None \<rparr>"

definition gFile :: globals where
  "gFile = gStderr\<lparr>fileName := Some ''/var/log/myapp.log''\<rparr>"

definition gBoth :: globals where
  "gBoth = gFile\<lparr>useSyslog := Some True\<rparr>"

section \<open>Reading a run\<close>

fun isCall :: "action \<Rightarrow> bool" where
  "isCall (Call f e now rendered) = True"
| "isCall other = False"

text \<open>
  What one step or one run, from state \<open>g\<close> to state \<open>g'\<close> with outcome \<open>oc\<close> and trace \<open>ev\<close>,
  does about the two lazily resolved destinations: at most one opening and at most one
  construction; none, and the handle kept, when the handle was there already; a handle
  in the state after an opening or a construction that returned; and every write to a file
  or to the system logger made on the handle that the state holds at the end; with a
  system-logger client at the start, no write but to that client; and with a file handle at
  the start, no write but to that file or to the system logger.
\<close>

definition resolvesOnce :: "globals \<Rightarrow> globals \<Rightarrow> outcome \<Rightarrow> event list \<Rightarrow> bool" where
  "resolvesOnce g g' oc ev \<longleftrightarrow>
     length (opens ev) \<le> 1 \<and> length (constructions ev) \<le> 1 \<and>
     (outFd g \<noteq> None \<longrightarrow> opens ev = [] \<and> outFd g' = outFd g) \<and>
     (syslogger g \<noteq> None \<longrightarrow> constructions ev = [] \<and> syslogger g' = syslogger g) \<and>
     (opens ev \<noteq> [] \<and> oc = Returned \<longrightarrow> outFd g' \<noteq> None) \<and>
     (constructions ev \<noteq> [] \<and> oc = Returned \<longrightarrow> syslogger g' \<noteq> None) \<and>
     (\<forall>fd l. FileWriteString fd l \<in> set ev \<longrightarrow> outFd g' = Some fd) \<and>
     (\<forall>h prio m. WriteLevel h prio m \<in> set ev \<longrightarrow> syslogger g' = Some h) \<and>
     (\<forall>x \<in> set (opens ev). \<exists>path. x = OpenFile path [O_WRONLY, O_APPEND, O_CREATE] 420) \<and>
     (\<forall>h. syslogger g = Some h \<longrightarrow> (\<forall>x \<in> set (writes ev). \<exists>prio m. x = WriteLevel h prio m)) \<and>
     (\<forall>fd. outFd g = Some fd \<longrightarrow>
        (\<forall>x \<in> set (writes ev). (\<exists>l. x = FileWriteString fd l) \<or> (\<exists>h prio m. x = WriteLevel h prio m)))"

text \<open>
  The three destinations. \<open>eventSink\<close> is the destination that a write goes to, and
  \<open>sinkOf\<close> is the destination that the configuration and the handles of a state select:
  the system logger when a client exists or the switch is set, else the file when a handle
  exists or a non-empty path is set, else standard error.
\<close>

datatype sink = ToSyslog | ToFile | ToStderr

fun eventSink :: "event \<Rightarrow> sink option" where
  "eventSink (WriteLevel h p m) = Some ToSyslog"
| "eventSink (FileWriteString fd l) = Some ToFile"
| "eventSink (StderrWriteString l) = Some ToStderr"
| "eventSink other = None"

definition sinkOf :: "globals \<Rightarrow> sink" where
  "sinkOf g =
     (if syslogger g \<noteq> None \<or> useSyslog g = Some True then ToSyslog
      else if outFd g \<noteq> None \<or> (case fileName g of None \<Rightarrow> False | Some path \<Rightarrow> path \<noteq> [])
      then ToFile
      else ToStderr)"

section \<open>The line format as the specification words it\<close>

text \<open>
  The format \<^verbatim>\<open>[%04d-%02d-%02d %02d:%02d:%02d] [%s] [%s] %s\n\<close> of the specification, to
  be compared with \<open>formatLine\<close>, which follows the format string of the code.
\<close>

definition specLine :: "wallclock \<Rightarrow> string \<Rightarrow> string \<Rightarrow> string \<Rightarrow> string" where
  "specLine now app name message =
     ''['' @ FormatIntPadded 4 (year now) @ ''-'' @ FormatIntPadded 2 (month now) @ ''-'' @
     FormatIntPadded 2 (day now) @ '' '' @ FormatIntPadded 2 (hour now) @ '':'' @
     FormatIntPadded 2 (minute now) @ '':'' @ FormatIntPadded 2 (second now) @
     ''] ['' @ app @ ''] ['' @ name @ ''] '' @ message @ [CHR 0x0A]"

section \<open>Decimal strings\<close>

text \<open>
  A base-10 integer string: an optional sign followed by one or more decimal digits.
  \<open>dropSign\<close> removes the sign, and \<open>decimal\<close> is the number that a string of digits
  denotes, continuing from \<open>acc\<close>.
\<close>

definition isDigit :: "char \<Rightarrow> bool" where
  "isDigit c \<longleftrightarrow> 48 \<le> (of_char c :: nat) \<and> (of_char c :: nat) \<le> 57"

definition dropSign :: "string \<Rightarrow> string" where
  "dropSign s = (if s \<noteq> [] \<and> (hd s = CHR ''+'' \<or> hd s = CHR ''-'') then tl s else s)"

definition wellFormedInt :: "string \<Rightarrow> bool" where
  "wellFormedInt s \<longleftrightarrow> dropSign s \<noteq> [] \<and> list_all isDigit (dropSign s)"

fun decimal :: "nat \<Rightarrow> string \<Rightarrow> nat" where
  "decimal acc [] = acc"
| "decimal acc (c # cs) = decimal (acc * 10 + ((of_char c :: nat) - 48)) cs"

section \<open>The stages of logf\<close>

lemma writes_simps [simp]:
  "writes [] = []"
  "writes (x # xs) = (if isWrite x then x # writes xs else writes xs)"
  "writes (xs @ ys) = writes xs @ writes ys"
  by (simp_all add: writes_def)

lemma opens_simps [simp]:
  "opens [] = []"
  "opens (x # xs) = (if isOpenFile x then x # opens xs else opens xs)"
  "opens (xs @ ys) = opens xs @ opens ys"
  by (simp_all add: opens_def)

lemma constructions_simps [simp]:
  "constructions [] = []"
  "constructions (x # xs) = (if isNewLogger x then x # constructions xs else constructions xs)"
  "constructions (xs @ ys) = constructions xs @ constructions ys"
  by (simp_all add: constructions_def)

lemma resolveSyslogger_writes: "resolveSyslogger e g = (r, ev) \<Longrightarrow> writes ev = []"
  by (auto simp: resolveSyslogger_def split: option.splits if_splits sum.splits)

lemma resolveOutFd_writes: "resolveOutFd e g = (r, ev) \<Longrightarrow> writes ev = []"
  by (auto simp: resolveOutFd_def split: option.splits if_splits sum.splits)

lemma writeRecord_writes: "writeRecord now sev m g = (None, ev) \<Longrightarrow> length (writes ev) = 1"
  by (auto simp: writeRecord_def Let_def split: option.splits)

lemma logf_filtered:
  "sint severity < sint (logLevel g) \<Longrightarrow> logf e now severity rendered g = (Returned, g, [])"
  by (simp add: logf_def Severity_get_def)

lemma logf_empty:
  "trimmed rendered = [] \<Longrightarrow> logf e now severity rendered g = (Returned, g, [])"
  by (simp add: logf_def trimmed_def)

lemma logf_accepted:
  "sint (logLevel g) \<le> sint severity \<Longrightarrow> trimmed rendered \<noteq> [] \<Longrightarrow>
   logf e now severity rendered g =
     (case resolveSyslogger e g of
        (Inl p, ev1) \<Rightarrow> (Panicked p, g, [Lock] @ ev1 @ [Unlock])
      | (Inr g1, ev1) \<Rightarrow>
          (case resolveOutFd e g1 of
             (Inl p, ev2) \<Rightarrow> (Panicked p, g1, [Lock] @ ev1 @ ev2 @ [Unlock])
           | (Inr g2, ev2) \<Rightarrow>
               (case writeRecord now severity (trimmed rendered) g2 of
                  (Some p, ev3) \<Rightarrow> (Panicked p, g2, [Lock] @ ev1 @ ev2 @ ev3 @ [Unlock])
                | (None, ev3) \<Rightarrow>
                    if sint severity \<ge> sint SeverityFatal
                    then (Exited 255, g2, [Lock] @ ev1 @ ev2 @ ev3 @ [Exit 255])
                    else (Returned, g2, [Lock] @ ev1 @ ev2 @ ev3 @ [Unlock]))))"
  unfolding trimmed_def by (simp add: logf_def Severity_get_def Let_def)

text \<open>What the two resolution stages do to the state and to the trace.\<close>

lemma resolveSyslogger_events:
  "resolveSyslogger e g = (r, ev) \<Longrightarrow>
     writes ev = [] \<and> opens ev = [] \<and> (\<forall>n. Exit n \<notin> set ev) \<and>
     (\<forall>x \<in> set ev. isNewLogger x) \<and> length ev \<le> 1 \<and>
     (syslogger g \<noteq> None \<longrightarrow> ev = [])"
  by (auto simp: resolveSyslogger_def split: option.splits if_splits sum.splits)

lemma resolveSyslogger_state:
  "resolveSyslogger e g = (Inr g1, ev) \<Longrightarrow>
     logLevel g1 = logLevel g \<and> useSyslog g1 = useSyslog g \<and> appName g1 = appName g \<and>
     syslogFacility g1 = syslogFacility g \<and> fileName g1 = fileName g \<and> outFd g1 = outFd g \<and>
     (syslogger g \<noteq> None \<longrightarrow> g1 = g) \<and>
     (ev \<noteq> [] \<longrightarrow> syslogger g = None \<and> syslogger g1 \<noteq> None)"
  by (auto simp: resolveSyslogger_def split: option.splits if_splits sum.splits)

lemma resolveOutFd_events:
  "resolveOutFd e g = (r, ev) \<Longrightarrow>
     writes ev = [] \<and> constructions ev = [] \<and> (\<forall>n. Exit n \<notin> set ev) \<and>
     (\<forall>x \<in> set ev. isOpenFile x) \<and> length ev \<le> 1 \<and>
     (outFd g \<noteq> None \<longrightarrow> ev = [])"
  by (auto simp: resolveOutFd_def split: option.splits if_splits sum.splits)

lemma resolveOutFd_state:
  "resolveOutFd e g = (Inr g2, ev) \<Longrightarrow>
     logLevel g2 = logLevel g \<and> useSyslog g2 = useSyslog g \<and> appName g2 = appName g \<and>
     syslogFacility g2 = syslogFacility g \<and> fileName g2 = fileName g \<and>
     syslogger g2 = syslogger g \<and>
     (outFd g \<noteq> None \<longrightarrow> g2 = g) \<and>
     (ev \<noteq> [] \<longrightarrow> outFd g = None \<and> outFd g2 \<noteq> None)"
  by (auto simp: resolveOutFd_def split: option.splits if_splits sum.splits)

lemma writeRecord_events:
  "writeRecord now sev m g = (r, ev) \<Longrightarrow>
     opens ev = [] \<and> constructions ev = [] \<and> (\<forall>n. Exit n \<notin> set ev)"
  by (auto simp: writeRecord_def Let_def split: option.splits)

lemma writeRecord_shape:
  "writeRecord now sev m g = (None, ev) \<Longrightarrow>
     (\<exists>h prio. syslogger g = Some h \<and> index severityToSyslogPriority sev = Some prio \<and>
                ev = [WriteLevel h prio m]) \<or>
     (\<exists>name fd. syslogger g = None \<and> outFd g = Some fd \<and> index SeverityName sev = Some name \<and>
                ev = [FileWriteString fd (formatLine now (appName g) name m), FileSync fd]) \<or>
     (\<exists>name. syslogger g = None \<and> outFd g = None \<and> index SeverityName sev = Some name \<and>
             ev = [StderrWriteString (formatLine now (appName g) name m)])"
  by (auto simp: writeRecord_def Let_def split: option.splits)

lemma writeRecord_panic: "writeRecord now sev m g = (Some p, ev) \<Longrightarrow> ev = []"
  by (auto simp: writeRecord_def Let_def split: option.splits)

text \<open>An accepted call stops at one of the three stages or goes through all of them.\<close>

lemma logf_accepted_cases:
  assumes A: "sint (logLevel g) \<le> sint severity"
    and M: "trimmed rendered \<noteq> []"
    and L: "logf e now severity rendered g = (oc, g', ev)"
  shows
    "(\<exists>p ev1. resolveSyslogger e g = (Inl p, ev1) \<and>
        oc = Panicked p \<and> g' = g \<and> ev = [Lock] @ ev1 @ [Unlock]) \<or>
     (\<exists>g1 ev1 p ev2. resolveSyslogger e g = (Inr g1, ev1) \<and> resolveOutFd e g1 = (Inl p, ev2) \<and>
        oc = Panicked p \<and> g' = g1 \<and> ev = [Lock] @ ev1 @ ev2 @ [Unlock]) \<or>
     (\<exists>g1 ev1 ev2 p. resolveSyslogger e g = (Inr g1, ev1) \<and> resolveOutFd e g1 = (Inr g', ev2) \<and>
        writeRecord now severity (trimmed rendered) g' = (Some p, []) \<and>
        oc = Panicked p \<and> ev = [Lock] @ ev1 @ ev2 @ [Unlock]) \<or>
     (\<exists>g1 ev1 ev2 ev3. resolveSyslogger e g = (Inr g1, ev1) \<and> resolveOutFd e g1 = (Inr g', ev2) \<and>
        writeRecord now severity (trimmed rendered) g' = (None, ev3) \<and>
        ev = [Lock] @ ev1 @ ev2 @ ev3 @
               [if sint severity \<ge> sint SeverityFatal then Exit 255 else Unlock] \<and>
        oc = (if sint severity \<ge> sint SeverityFatal then Exited 255 else Returned))"
proof -
  obtain r1 ev1 where R1: "resolveSyslogger e g = (r1, ev1)"
    by (cases "resolveSyslogger e g")
  note LA = L [unfolded logf_accepted [OF A M] R1]
  show ?thesis
  proof (cases r1)
    case (Inl p)
    with LA R1 show ?thesis by auto
  next
    case g1: (Inr g1)
    obtain r2 ev2 where R2: "resolveOutFd e g1 = (r2, ev2)"
      by (cases "resolveOutFd e g1")
    show ?thesis
    proof (cases r2)
      case (Inl p)
      with LA R1 g1 R2 show ?thesis by auto
    next
      case g2: (Inr g2)
      obtain r3 ev3 where R3: "writeRecord now severity (trimmed rendered) g2 = (r3, ev3)"
        by (cases "writeRecord now severity (trimmed rendered) g2")
      show ?thesis
      proof (cases r3)
        case (Some p)
        with R3 have "ev3 = []" by (simp add: writeRecord_panic)
        with LA R1 g1 R2 g2 R3 Some show ?thesis by auto
      next
        case None
        with LA g1 R2 g2 R3 have "g' = g2"
          and "ev = [Lock] @ ev1 @ ev2 @ ev3 @
                 [if sint severity \<ge> sint SeverityFatal then Exit 255 else Unlock]"
          and "oc = (if sint severity \<ge> sint SeverityFatal then Exited 255 else Returned)"
          by (auto split: if_splits)
        with R1 g1 R2 g2 R3 None show ?thesis by simp
      qed
    qed
  qed
qed

text \<open>A call that is accepted and does not panic went through the three stages.\<close>

lemma logf_accepted_stages:
  assumes L: "logf e now severity rendered g = (oc, g', ev)"
    and A: "sint (logLevel g) \<le> sint severity"
    and M: "trimmed rendered \<noteq> []"
    and P: "\<forall>p. oc \<noteq> Panicked p"
  shows "\<exists>g1 ev1 ev2 ev3.
           resolveSyslogger e g = (Inr g1, ev1) \<and>
           resolveOutFd e g1 = (Inr g', ev2) \<and>
           writeRecord now severity (trimmed rendered) g' = (None, ev3) \<and>
           ev = [Lock] @ ev1 @ ev2 @ ev3 @
                  [if sint severity \<ge> sint SeverityFatal then Exit 255 else Unlock] \<and>
           oc = (if sint severity \<ge> sint SeverityFatal then Exited 255 else Returned)"
  using logf_accepted_cases [OF A M L] P by blast

lemma logf_single_write:
  assumes "logf e now severity rendered g = (oc, g', ev)"
    and "sint (logLevel g) \<le> sint severity"
    and "trimmed rendered \<noteq> []"
    and "\<forall>p. oc \<noteq> Panicked p"
  shows "length (writes ev) = 1"
proof -
  from logf_accepted_stages [OF assms] obtain g1 ev1 ev2 ev3 where
    R1: "resolveSyslogger e g = (Inr g1, ev1)" and
    R2: "resolveOutFd e g1 = (Inr g', ev2)" and
    R3: "writeRecord now severity (trimmed rendered) g' = (None, ev3)" and
    E: "ev = [Lock] @ ev1 @ ev2 @ ev3 @
              [if sint severity \<ge> sint SeverityFatal then Exit 255 else Unlock]"
    by blast
  have "writes ev1 = []" using R1 by (rule resolveSyslogger_writes)
  moreover have "writes ev2 = []" using R2 by (rule resolveOutFd_writes)
  moreover have "length (writes ev3) = 1" using R3 by (rule writeRecord_writes)
  ultimately show ?thesis using E by simp
qed

text \<open>A write in the trace of a call comes from its third stage.\<close>

lemma logf_write_origin:
  assumes L: "logf e now severity rendered g = (oc, g', ev)"
    and X: "x \<in> set ev" and W: "isWrite x"
  shows "\<exists>ev3. writeRecord now severity (trimmed rendered) g' = (None, ev3) \<and> x \<in> set ev3 \<and>
           appName g' = appName g"
proof -
  have A: "sint (logLevel g) \<le> sint severity"
  proof (rule ccontr)
    assume "\<not> ?thesis"
    then have "logf e now severity rendered g = (Returned, g, [])" by (simp add: logf_filtered)
    with L X show False by simp
  qed
  have M: "trimmed rendered \<noteq> []"
  proof
    assume "trimmed rendered = []"
    then have "logf e now severity rendered g = (Returned, g, [])" by (rule logf_empty)
    with L X show False by simp
  qed
  have notW: "\<And>evs. writes evs = [] \<Longrightarrow> x \<notin> set evs"
    using W by (auto simp: writes_def filter_empty_conv)
  from logf_accepted_cases [OF A M L] show ?thesis
  proof (elim disjE exE conjE)
    fix p ev1
    assume "resolveSyslogger e g = (Inl p, ev1)" "ev = [Lock] @ ev1 @ [Unlock]"
    with X W notW [of ev1] resolveSyslogger_events [of e g "Inl p" ev1]
    show ?thesis by auto
  next
    fix g1 ev1 p ev2
    assume "resolveSyslogger e g = (Inr g1, ev1)" "resolveOutFd e g1 = (Inl p, ev2)"
      "ev = [Lock] @ ev1 @ ev2 @ [Unlock]"
    with X W notW [of ev1] notW [of ev2] resolveSyslogger_events [of e g "Inr g1" ev1]
      resolveOutFd_events [of e g1 "Inl p" ev2]
    show ?thesis by auto
  next
    fix g1 ev1 ev2 p
    assume "resolveSyslogger e g = (Inr g1, ev1)" "resolveOutFd e g1 = (Inr g', ev2)"
      "ev = [Lock] @ ev1 @ ev2 @ [Unlock]"
    with X W notW [of ev1] notW [of ev2] resolveSyslogger_events [of e g "Inr g1" ev1]
      resolveOutFd_events [of e g1 "Inr g'" ev2]
    show ?thesis by auto
  next
    fix g1 ev1 ev2 ev3
    assume R1: "resolveSyslogger e g = (Inr g1, ev1)" and R2: "resolveOutFd e g1 = (Inr g', ev2)"
      and R3: "writeRecord now severity (trimmed rendered) g' = (None, ev3)"
      and E: "ev = [Lock] @ ev1 @ ev2 @ ev3 @
                [if sint severity \<ge> sint SeverityFatal then Exit 255 else Unlock]"
    from R1 R2 have "appName g' = appName g"
      using resolveSyslogger_state [of e g g1 ev1] resolveOutFd_state [of e g1 g' ev2] by auto
    moreover from E X W notW [of ev1] notW [of ev2] resolveSyslogger_events [OF R1]
      resolveOutFd_events [OF R2]
    have "x \<in> set ev3" by (auto split: if_splits)
    ultimately show ?thesis using R3 by blast
  qed
qed

text \<open>The trimming of the messages used as examples below.\<close>

lemma trimmed_blank: "trimmed [CHR '' '', CHR 0x09, CHR 0x0A, CHR 0x0A] = []"
  by code_simp

lemma trimmed_empty: "trimmed [] = []"
  by code_simp

lemma trimmed_boom: "trimmed ''boom'' = ''boom''"
  by code_simp

lemma sint_Severity [simp]:
  "sint SeverityDebug = 0" "sint SeverityInfo = 1" "sint SeverityNotice = 2"
  "sint SeverityWarning = 3" "sint SeverityError = 4" "sint SeverityCritical = 5"
  "sint SeverityFatal = 6" "sint SeverityLast = 7"
  by (simp_all add: Severity_defs)

lemma index_SeverityName_Fatal: "index SeverityName SeverityFatal = Some ''FATAL''"
  by (simp add: index_def SeverityName_def)

lemma index_Priority_Fatal: "index severityToSyslogPriority SeverityFatal = Some LOG_ALERT"
  by (simp add: index_def severityToSyslogPriority_def)

lemma index_SeverityName_Info: "index SeverityName SeverityInfo = Some ''INFO''"
  by (simp add: index_def SeverityName_def)

lemma index_Priority_Info: "index severityToSyslogPriority SeverityInfo = Some LOG_INFO"
  by (simp add: index_def severityToSyslogPriority_def)

text \<open>The calls used as examples, evaluated.\<close>

lemma logf_Fatal_boom_gStderr:
  "logf envOk clock0 SeverityFatal ''boom'' gStderr =
     (Exited 255, gStderr,
      [Lock, StderrWriteString (formatLine clock0 ''myapp'' ''FATAL'' ''boom''), Exit 255])"
  by (simp add: logf_accepted trimmed_boom gStderr_def resolveSyslogger_def resolveOutFd_def
      writeRecord_def index_SeverityName_Fatal)

lemma logf_Fatal_boom_gFile_denied:
  "logf envDenied clock0 SeverityFatal ''boom'' gFile =
     (Panicked (PanicErr ''denied''), gFile,
      [Lock, OpenFile ''/var/log/myapp.log'' [O_WRONLY, O_APPEND, O_CREATE] 420, Unlock])"
  by (simp add: logf_accepted trimmed_boom gFile_def gStderr_def envDenied_def
      resolveSyslogger_def resolveOutFd_def)

section \<open>The claims about one call\<close>

text \<open>
  C1, as amended. A call whose severity is strictly below the threshold returns at once:
  the outcome is a plain return, the state is unchanged and the trace is empty (no lock, no
  resolution, no write). A call whose severity is at or above the threshold, whose trimmed
  message is not empty and which does not panic produces exactly one write (one line to the
  file or to standard error, or one write to the system logger).
\<close>

theorem logf_filter_or_single_write:
  "(sint severity < sint (logLevel g) \<longrightarrow>
      logf e now severity rendered g = (Returned, g, [])) \<and>
   (sint (logLevel g) \<le> sint severity \<and> trimmed rendered \<noteq> [] \<and>
    logf e now severity rendered g = (oc, g', ev) \<and> (\<forall>p. oc \<noteq> Panicked p) \<longrightarrow>
      length (writes ev) = 1)"
  using logf_filtered logf_single_write by blast

theorem logf_filter_or_single_write_witness:
  "sint SeverityInfo < sint (logLevel (gStderr\<lparr>logLevel := SeverityWarning\<rparr>)) \<and>
   logf envOk clock0 SeverityInfo ''boom'' (gStderr\<lparr>logLevel := SeverityWarning\<rparr>) =
     (Returned, gStderr\<lparr>logLevel := SeverityWarning\<rparr>, []) \<and>
   sint (logLevel gStderr) \<le> sint SeverityFatal \<and> trimmed ''boom'' \<noteq> [] \<and>
   length (writes [Lock, StderrWriteString (formatLine clock0 ''myapp'' ''FATAL'' ''boom''),
                   Exit 255]) = 1"
  using logf_filter_or_single_write
          [where severity = SeverityInfo and g = "gStderr\<lparr>logLevel := SeverityWarning\<rparr>"
             and e = envOk and now = clock0 and rendered = "''boom''"]
        logf_filter_or_single_write
          [where severity = SeverityFatal and g = gStderr and rendered = "''boom''"
             and e = envOk and now = clock0 and oc = "Exited 255" and g' = gStderr
             and ev = "[Lock, StderrWriteString (formatLine clock0 ''myapp'' ''FATAL'' ''boom''),
                        Exit 255]"]
        logf_Fatal_boom_gStderr trimmed_boom
  by (simp add: gStderr_def)

text \<open>
  C1 as stated fails: a call at or above the threshold whose message trims to the empty
  string produces no write at all.
\<close>

theorem logf_accepted_without_write:
  "sint (logLevel gStderr) \<le> sint SeverityFatal \<and>
   writes (snd (snd (logf envOk clock0 SeverityFatal [] gStderr))) = []"
  by (simp add: logf_empty trimmed_empty gStderr_def)

text \<open>
  C3. When the rendered text, after the removal of one trailing newline and of the
  surrounding white space, is empty, the call does nothing whatever its severity: the trace
  is empty (nothing is written, no destination is resolved), the state is unchanged, and
  the call returns. In particular \<open>Fatal\<close> and \<open>Fatalf\<close> do not exit.
\<close>

theorem logf_empty_message_is_noop:
  "TrimSpace (TrimSuffix rendered [CHR 0x0A]) = [] \<Longrightarrow>
     logf e now severity rendered g = (Returned, g, []) \<and>
     call Fatal e now rendered g = (Returned, g, []) \<and>
     call Fatalf e now rendered g = (Returned, g, [])"
  by (simp add: logf_def log_def)

theorem logf_empty_message_is_noop_witness:
  "TrimSpace (TrimSuffix [CHR '' '', CHR 0x09, CHR 0x0A, CHR 0x0A] [CHR 0x0A]) = [] \<and>
   logf envOk clock0 SeverityFatal [CHR '' '', CHR 0x09, CHR 0x0A, CHR 0x0A] gStderr =
     (Returned, gStderr, []) \<and>
   call Fatal envOk clock0 [CHR '' '', CHR 0x09, CHR 0x0A, CHR 0x0A] gStderr =
     (Returned, gStderr, []) \<and>
   call Fatalf envOk clock0 [CHR '' '', CHR 0x09, CHR 0x0A, CHR 0x0A] gStderr =
     (Returned, gStderr, [])"
  using logf_empty_message_is_noop
          [where rendered = "[CHR '' '', CHR 0x09, CHR 0x0A, CHR 0x0A]" and e = envOk
             and now = clock0 and severity = SeverityFatal and g = gStderr]
        trimmed_blank
  by (simp add: trimmed_def)

text \<open>
  C4, as amended. A call at \<open>Fatal\<close> severity or above that passes the threshold filter, has
  a non-empty trimmed message and does not panic ends the process with exit code 255, and
  the exit is the last event of its trace, right after the one write of the message (to the
  system logger, to the file followed by the sync of the file, or to standard error);
  nothing before that write is a write or an exit. The deferred unlock does not run.
\<close>

theorem logf_fatal_exits_after_write:
  assumes "sint SeverityFatal \<le> sint severity"
    and "sint (logLevel g) \<le> sint severity"
    and "trimmed rendered \<noteq> []"
    and "logf e now severity rendered g = (oc, g', ev)"
    and "\<forall>p. oc \<noteq> Panicked p"
  shows "oc = Exited 255 \<and>
         (\<exists>ev0 w. ev = [Lock] @ ev0 @ w @ [Exit 255] \<and>
            writes ev0 = [] \<and> (\<forall>n. Exit n \<notin> set ev0) \<and>
            ((\<exists>h prio. w = [WriteLevel h prio (trimmed rendered)]) \<or>
             (\<exists>fd l. w = [FileWriteString fd l, FileSync fd]) \<or>
             (\<exists>l. w = [StderrWriteString l])))"
proof -
  from logf_accepted_stages [OF assms(4) assms(2) assms(3) assms(5)] assms(1)
  obtain g1 ev1 ev2 ev3 where
    R1: "resolveSyslogger e g = (Inr g1, ev1)" and
    R2: "resolveOutFd e g1 = (Inr g', ev2)" and
    R3: "writeRecord now severity (trimmed rendered) g' = (None, ev3)" and
    E: "ev = [Lock] @ ev1 @ ev2 @ ev3 @ [Exit 255]" and
    O: "oc = Exited 255"
    by auto
  have "writes (ev1 @ ev2) = []" "\<forall>n. Exit n \<notin> set (ev1 @ ev2)"
    using resolveSyslogger_events [OF R1] resolveOutFd_events [OF R2] by auto
  moreover have "ev = [Lock] @ (ev1 @ ev2) @ ev3 @ [Exit 255]"
    using E by simp
  moreover have
    "(\<exists>h prio. ev3 = [WriteLevel h prio (trimmed rendered)]) \<or>
     (\<exists>fd l. ev3 = [FileWriteString fd l, FileSync fd]) \<or>
     (\<exists>l. ev3 = [StderrWriteString l])"
    using writeRecord_shape [OF R3] by blast
  ultimately show ?thesis using O by blast
qed

theorem logf_fatal_exits_after_write_witness:
  "sint SeverityFatal \<le> sint SeverityFatal \<and> sint (logLevel gStderr) \<le> sint SeverityFatal \<and>
   trimmed ''boom'' \<noteq> [] \<and>
   logf envOk clock0 SeverityFatal ''boom'' gStderr =
     (Exited 255, gStderr,
      [Lock, StderrWriteString (formatLine clock0 ''myapp'' ''FATAL'' ''boom''), Exit 255]) \<and>
   (\<exists>ev0 w.
      [Lock, StderrWriteString (formatLine clock0 ''myapp'' ''FATAL'' ''boom''), Exit 255] =
        [Lock] @ ev0 @ w @ [Exit 255] \<and>
      writes ev0 = [] \<and> (\<forall>n. Exit n \<notin> set ev0) \<and>
      ((\<exists>h prio. w = [WriteLevel h prio (trimmed ''boom'')]) \<or>
       (\<exists>fd l. w = [FileWriteString fd l, FileSync fd]) \<or>
       (\<exists>l. w = [StderrWriteString l])))"
proof -
  have h1: "sint SeverityFatal \<le> sint SeverityFatal" by simp
  have h2: "sint (logLevel gStderr) \<le> sint SeverityFatal" by (simp add: gStderr_def)
  have h3: "trimmed ''boom'' \<noteq> []" by (simp add: trimmed_boom)
  have h5: "\<forall>p. Exited 255 \<noteq> Panicked p" by simp
  from logf_fatal_exits_after_write [OF h1 h2 h3 logf_Fatal_boom_gStderr h5]
  show ?thesis using h1 h2 h3 logf_Fatal_boom_gStderr by blast
qed

text \<open>
  C4 as stated fails: a \<open>Fatal\<close> call that passes the filter with a non-empty message, when
  the log file cannot be opened, panics with the error of \<^verbatim>\<open>OpenFile\<close>; it does not exit with
  code 255 and its message is never written.
\<close>

theorem logf_fatal_panics_without_write:
  "sint (logLevel gFile) \<le> sint SeverityFatal \<and> trimmed ''boom'' \<noteq> [] \<and>
   logf envDenied clock0 SeverityFatal ''boom'' gFile =
     (Panicked (PanicErr ''denied''), gFile,
      [Lock, OpenFile ''/var/log/myapp.log'' [O_WRONLY, O_APPEND, O_CREATE] 420, Unlock]) \<and>
   fst (logf envDenied clock0 SeverityFatal ''boom'' gFile) \<noteq> Exited 255 \<and>
   writes (snd (snd (logf envDenied clock0 SeverityFatal ''boom'' gFile))) = []"
  by (simp add: logf_Fatal_boom_gFile_denied trimmed_boom) (simp add: gFile_def gStderr_def)

text \<open>
  C2, as amended. Take an accepted call (severity at or above the threshold, non-empty
  trimmed message, a severity that has a name and a priority) in a state where no
  destination is resolved yet, and let the collaborators succeed. Then the message is
  written to exactly one sink:
  \<^item> with the system-logger switch set and a non-empty file path, the only write is the one
    to the system logger; the same call also opens the file, which receives no write;
  \<^item> with the switch off and a non-empty file path, the file is opened and the line is
    written to it and synced;
  \<^item> with the switch off and an empty path, the line goes to standard error and nothing is
    constructed or opened.
  The last event is the unlock, or the exit for a severity at or above \<open>Fatal\<close>.
\<close>

theorem logf_destination_priority:
  assumes "sint (logLevel g) \<le> sint severity"
    and "trimmed rendered \<noteq> []"
    and "index SeverityName severity = Some name"
    and "index severityToSyslogPriority severity = Some prio"
    and "syslogger g = None" and "outFd g = None"
    and "fileName g = Some path"
  shows
    "(useSyslog g = Some True \<and> path \<noteq> [] \<and>
      newLogger e LOG_INFO (syslogFacility g) (appName g) = Inr h \<and> openFile e path = Inr fd \<longrightarrow>
        snd (snd (logf e now severity rendered g)) =
          [Lock, NewLogger LOG_INFO (syslogFacility g) (appName g),
           OpenFile path [O_WRONLY, O_APPEND, O_CREATE] 420,
           WriteLevel h prio (trimmed rendered),
           if sint SeverityFatal \<le> sint severity then Exit 255 else Unlock]) \<and>
     (useSyslog g = Some False \<and> path \<noteq> [] \<and> openFile e path = Inr fd \<longrightarrow>
        snd (snd (logf e now severity rendered g)) =
          [Lock, OpenFile path [O_WRONLY, O_APPEND, O_CREATE] 420,
           FileWriteString fd (formatLine now (appName g) name (trimmed rendered)), FileSync fd,
           if sint SeverityFatal \<le> sint severity then Exit 255 else Unlock]) \<and>
     (useSyslog g = Some False \<and> path = [] \<longrightarrow>
        snd (snd (logf e now severity rendered g)) =
          [Lock, StderrWriteString (formatLine now (appName g) name (trimmed rendered)),
           if sint SeverityFatal \<le> sint severity then Exit 255 else Unlock])"
  using assms(3-7)
  by (simp add: logf_accepted [OF assms(1) assms(2)] resolveSyslogger_def resolveOutFd_def
      writeRecord_def)

lemma logf_Info_boom_gBoth:
  "logf envOk clock0 SeverityInfo ''boom'' gBoth =
     (Returned, gBoth\<lparr>syslogger := Some 1, outFd := Some 3\<rparr>,
      [Lock, NewLogger LOG_INFO ''DAEMON'' ''myapp'',
       OpenFile ''/var/log/myapp.log'' [O_WRONLY, O_APPEND, O_CREATE] 420,
       WriteLevel 1 LOG_INFO ''boom'', Unlock])"
  by (simp add: logf_accepted trimmed_boom gBoth_def gFile_def gStderr_def envOk_def
      resolveSyslogger_def resolveOutFd_def writeRecord_def index_Priority_Info)

theorem logf_destination_priority_witness:
  "snd (snd (logf envOk clock0 SeverityInfo ''boom'' gBoth)) =
     [Lock, NewLogger LOG_INFO ''DAEMON'' ''myapp'',
      OpenFile ''/var/log/myapp.log'' [O_WRONLY, O_APPEND, O_CREATE] 420,
      WriteLevel 1 LOG_INFO ''boom'', Unlock] \<and>
   snd (snd (logf envOk clock0 SeverityInfo ''boom'' gFile)) =
     [Lock, OpenFile ''/var/log/myapp.log'' [O_WRONLY, O_APPEND, O_CREATE] 420,
      FileWriteString 3 (formatLine clock0 ''myapp'' ''INFO'' ''boom''), FileSync 3, Unlock] \<and>
   snd (snd (logf envOk clock0 SeverityInfo ''boom'' gStderr)) =
     [Lock, StderrWriteString (formatLine clock0 ''myapp'' ''INFO'' ''boom''), Unlock]"
proof -
  have t: "trimmed ''boom'' \<noteq> []" by (simp add: trimmed_boom)
  have "snd (snd (logf envOk clock0 SeverityInfo ''boom'' gBoth)) =
     [Lock, NewLogger LOG_INFO ''DAEMON'' ''myapp'',
      OpenFile ''/var/log/myapp.log'' [O_WRONLY, O_APPEND, O_CREATE] 420,
      WriteLevel 1 LOG_INFO ''boom'', Unlock]"
    using logf_destination_priority
            [where g = gBoth and severity = SeverityInfo and rendered = "''boom''"
               and name = "''INFO''" and prio = LOG_INFO
               and path = "''/var/log/myapp.log''" and e = envOk and h = 1 and fd = 3
               and now = clock0]
          t index_SeverityName_Info index_Priority_Info
    by (simp add: gBoth_def gFile_def gStderr_def envOk_def trimmed_boom)
  moreover have "snd (snd (logf envOk clock0 SeverityInfo ''boom'' gFile)) =
     [Lock, OpenFile ''/var/log/myapp.log'' [O_WRONLY, O_APPEND, O_CREATE] 420,
      FileWriteString 3 (formatLine clock0 ''myapp'' ''INFO'' ''boom''), FileSync 3, Unlock]"
    using logf_destination_priority
            [where g = gFile and severity = SeverityInfo and rendered = "''boom''"
               and name = "''INFO''" and prio = LOG_INFO
               and path = "''/var/log/myapp.log''" and e = envOk and h = 1 and fd = 3
               and now = clock0]
          t index_SeverityName_Info index_Priority_Info
    by (simp add: gFile_def gStderr_def envOk_def trimmed_boom)
  moreover have "snd (snd (logf envOk clock0 SeverityInfo ''boom'' gStderr)) =
     [Lock, StderrWriteString (formatLine clock0 ''myapp'' ''INFO'' ''boom''), Unlock]"
    using logf_destination_priority
            [where g = gStderr and severity = SeverityInfo and rendered = "''boom''"
               and name = "''INFO''" and prio = LOG_INFO
               and path = "[]" and e = envOk and h = 1 and fd = 3 and now = clock0]
          t index_SeverityName_Info index_Priority_Info
    by (simp add: gStderr_def envOk_def trimmed_boom)
  ultimately show ?thesis by blast
qed

text \<open>
  C2 as stated fails: with the system-logger switch and a file path both set, the call
  that constructs the system-logger client also opens the file and keeps its handle, so a
  second destination is established, although nothing is written to it.
\<close>

theorem logf_both_configured_opens_file:
  "useSyslog gBoth = Some True \<and> fileName gBoth = Some ''/var/log/myapp.log'' \<and>
   outFd gBoth = None \<and>
   OpenFile ''/var/log/myapp.log'' [O_WRONLY, O_APPEND, O_CREATE] 420
     \<in> set (snd (snd (logf envOk clock0 SeverityInfo ''boom'' gBoth))) \<and>
   outFd (fst (snd (logf envOk clock0 SeverityInfo ''boom'' gBoth))) = Some 3"
  by (simp add: logf_Info_boom_gBoth) (simp add: gBoth_def gFile_def gStderr_def)

section \<open>The format of a line\<close>

lemma digits_nonempty: "digits n \<noteq> []"
  by (subst digits.simps) simp

lemma digits_length_lower: "10 ^ k \<le> n \<Longrightarrow> k < length (digits n)"
proof (induction k arbitrary: n)
  case 0
  then show ?case using digits_nonempty [of n] by (cases "digits n") simp_all
next
  case (Suc k)
  then have big: "10 \<le> n" and "10 ^ k \<le> n div 10"
    using le_trans [of 10 "10 ^ Suc k" n] by (simp_all add: less_eq_div_iff_mult_less_eq)
  then have "k < length (digits (n div 10))" by (simp add: Suc.IH)
  moreover from big have "digits n = digits (n div 10) @ [digitChar (n mod 10)]"
    by (subst digits.simps) simp
  ultimately show ?case by simp
qed

text \<open>From the year 1000 on, \<^verbatim>\<open>%d\<close> and \<^verbatim>\<open>%04d\<close> print the same.\<close>

lemma FormatIntPadded_4: "1000 \<le> y \<Longrightarrow> FormatIntPadded 4 y = FormatInt y"
proof -
  assume y: "1000 \<le> y"
  then have "10 ^ 3 \<le> nat y" by simp
  then have "3 < length (digits (nat y))" by (rule digits_length_lower)
  with y show ?thesis by (simp add: FormatIntPadded_def FormatInt_def zeroPad_def)
qed

lemma specLine_formatLine:
  "1000 \<le> year now \<Longrightarrow> specLine now app name message = formatLine now app name message"
  by (simp add: specLine_def formatLine_def FormatIntPadded_4)

lemma index_in_set: "index xs s = Some x \<Longrightarrow> x \<in> set xs"
  by (auto simp: index_def split: if_splits)

text \<open>
  Every line that a call writes to the file or to standard error is the format string of
  line 190 applied to the date and time read at the call, the application name, the name
  of the severity and the trimmed message; from the year 1000 on it is the line of the
  format of the specification.
\<close>

lemma logf_line_code_format:
  assumes "logf e now severity rendered g = (oc, g', ev)"
    and "FileWriteString fd l \<in> set ev \<or> StderrWriteString l \<in> set ev"
  shows "\<exists>name. index SeverityName severity = Some name \<and> name \<in> set SeverityName \<and>
           l = ''['' @ FormatInt (year now) @ ''-'' @ FormatIntPadded 2 (month now) @ ''-'' @
               FormatIntPadded 2 (day now) @ '' '' @ FormatIntPadded 2 (hour now) @ '':'' @
               FormatIntPadded 2 (minute now) @ '':'' @ FormatIntPadded 2 (second now) @
               ''] ['' @ appName g @ ''] ['' @ name @ ''] '' @
               TrimSpace (TrimSuffix rendered [CHR 0x0A]) @ [CHR 0x0A] \<and>
           (1000 \<le> year now \<longrightarrow>
              l = specLine now (appName g) name (TrimSpace (TrimSuffix rendered [CHR 0x0A])))"
proof -
  from assms(2) obtain x where X: "x \<in> set ev" "isWrite x"
    and xl: "x = FileWriteString fd l \<or> x = StderrWriteString l"
    by auto
  from logf_write_origin [OF assms(1) X] obtain ev3 where
    R3: "writeRecord now severity (trimmed rendered) g' = (None, ev3)" and
    x3: "x \<in> set ev3" and app: "appName g' = appName g"
    by blast
  from writeRecord_shape [OF R3] x3 xl obtain name where
    n: "index SeverityName severity = Some name" and
    l: "l = formatLine now (appName g') name (trimmed rendered)"
    by auto
  from n have "name \<in> set SeverityName" by (rule index_in_set)
  with n l app show ?thesis
    by (auto simp: specLine_formatLine) (simp_all add: formatLine_def trimmed_def)
qed

lemma formatLine_clock0:
  "formatLine clock0 ''myapp'' ''INFO'' ''boom'' =
     ''[2018-03-07 09:05:00] [myapp] [INFO] boom'' @ [CHR 0x0A]"
  by code_simp

lemma logf_Info_boom_gStderr:
  "logf envOk now SeverityInfo ''boom'' gStderr =
     (Returned, gStderr,
      [Lock, StderrWriteString (formatLine now ''myapp'' ''INFO'' ''boom''), Unlock])"
  by (simp add: logf_accepted trimmed_boom gStderr_def resolveSyslogger_def resolveOutFd_def
      writeRecord_def index_SeverityName_Info)

text \<open>
  C5. Take a reading of the system clock, whose year has at least four digits (no system
  clock goes back before the year 1601; the hypothesis asks for 1000). Every line that a
  call writes to the file or to standard error is then exactly
  \<^verbatim>\<open>[%04d-%02d-%02d %02d:%02d:%02d] [%s] [%s] %s\n\<close> applied to the date and time read at
  the call, the application name, the upper-case name of the severity in \<open>SeverityName\<close>
  and the trimmed message. (The verb of the code for the year is \<^verbatim>\<open>%d\<close>, which prints
  these years as \<^verbatim>\<open>%04d\<close> does.)
\<close>

theorem logf_line_matches_format:
  assumes "logf e now severity rendered g = (oc, g', ev)"
    and "FileWriteString fd l \<in> set ev \<or> StderrWriteString l \<in> set ev"
    and "1000 \<le> year now"
  shows "\<exists>name. index SeverityName severity = Some name \<and> name \<in> set SeverityName \<and>
           l = ''['' @ FormatIntPadded 4 (year now) @ ''-'' @ FormatIntPadded 2 (month now) @
               ''-'' @ FormatIntPadded 2 (day now) @ '' '' @ FormatIntPadded 2 (hour now) @
               '':'' @ FormatIntPadded 2 (minute now) @ '':'' @
               FormatIntPadded 2 (second now) @
               ''] ['' @ appName g @ ''] ['' @ name @ ''] '' @
               TrimSpace (TrimSuffix rendered [CHR 0x0A]) @ [CHR 0x0A] \<and>
           l = specLine now (appName g) name (TrimSpace (TrimSuffix rendered [CHR 0x0A]))"
proof -
  from logf_line_code_format [OF assms(1) assms(2)] assms(3) obtain name where
    n: "index SeverityName severity = Some name" "name \<in> set SeverityName" and
    l: "l = specLine now (appName g) name (TrimSpace (TrimSuffix rendered [CHR 0x0A]))"
    by blast
  from l have "l = ''['' @ FormatIntPadded 4 (year now) @ ''-'' @ FormatIntPadded 2 (month now) @
               ''-'' @ FormatIntPadded 2 (day now) @ '' '' @ FormatIntPadded 2 (hour now) @
               '':'' @ FormatIntPadded 2 (minute now) @ '':'' @
               FormatIntPadded 2 (second now) @
               ''] ['' @ appName g @ ''] ['' @ name @ ''] '' @
               TrimSpace (TrimSuffix rendered [CHR 0x0A]) @ [CHR 0x0A]"
    by (simp add: specLine_def)
  with n l show ?thesis by blast
qed

theorem logf_line_matches_format_witness:
  "logf envOk clock0 SeverityInfo ''boom'' gStderr =
     (Returned, gStderr,
      [Lock, StderrWriteString (''[2018-03-07 09:05:00] [myapp] [INFO] boom'' @ [CHR 0x0A]),
       Unlock]) \<and>
   1000 \<le> year clock0 \<and>
   index SeverityName SeverityInfo = Some ''INFO'' \<and>
   ''[2018-03-07 09:05:00] [myapp] [INFO] boom'' @ [CHR 0x0A] =
     ''['' @ FormatIntPadded 4 (year clock0) @ ''-'' @ FormatIntPadded 2 (month clock0) @
     ''-'' @ FormatIntPadded 2 (day clock0) @ '' '' @ FormatIntPadded 2 (hour clock0) @
     '':'' @ FormatIntPadded 2 (minute clock0) @ '':'' @
     FormatIntPadded 2 (second clock0) @
     ''] ['' @ appName gStderr @ ''] ['' @ ''INFO'' @ ''] '' @
     TrimSpace (TrimSuffix ''boom'' [CHR 0x0A]) @ [CHR 0x0A] \<and>
   ''[2018-03-07 09:05:00] [myapp] [INFO] boom'' @ [CHR 0x0A] =
     specLine clock0 (appName gStderr) ''INFO'' (TrimSpace (TrimSuffix ''boom'' [CHR 0x0A]))"
proof -
  have L: "logf envOk clock0 SeverityInfo ''boom'' gStderr =
     (Returned, gStderr,
      [Lock, StderrWriteString (''[2018-03-07 09:05:00] [myapp] [INFO] boom'' @ [CHR 0x0A]),
       Unlock])"
    using logf_Info_boom_gStderr [of clock0] by (simp add: formatLine_clock0)
  have y: "1000 \<le> year clock0" by (simp add: clock0_def)
  have D: "FileWriteString 0 (''[2018-03-07 09:05:00] [myapp] [INFO] boom'' @ [CHR 0x0A])
             \<in> set [Lock,
                  StderrWriteString (''[2018-03-07 09:05:00] [myapp] [INFO] boom'' @ [CHR 0x0A]),
                  Unlock] \<or>
           StderrWriteString (''[2018-03-07 09:05:00] [myapp] [INFO] boom'' @ [CHR 0x0A])
             \<in> set [Lock,
                  StderrWriteString (''[2018-03-07 09:05:00] [myapp] [INFO] boom'' @ [CHR 0x0A]),
                  Unlock]"
    by simp
  from logf_line_matches_format [OF L D y] obtain name where
    n: "index SeverityName SeverityInfo = Some name" and
    l1: "''[2018-03-07 09:05:00] [myapp] [INFO] boom'' @ [CHR 0x0A] =
           ''['' @ FormatIntPadded 4 (year clock0) @ ''-'' @ FormatIntPadded 2 (month clock0) @
           ''-'' @ FormatIntPadded 2 (day clock0) @ '' '' @ FormatIntPadded 2 (hour clock0) @
           '':'' @ FormatIntPadded 2 (minute clock0) @ '':'' @
           FormatIntPadded 2 (second clock0) @
           ''] ['' @ appName gStderr @ ''] ['' @ name @ ''] '' @
           TrimSpace (TrimSuffix ''boom'' [CHR 0x0A]) @ [CHR 0x0A]" and
    l2: "''[2018-03-07 09:05:00] [myapp] [INFO] boom'' @ [CHR 0x0A] =
           specLine clock0 (appName gStderr) name (TrimSpace (TrimSuffix ''boom'' [CHR 0x0A]))"
    by blast
  from n have name: "name = ''INFO''" by (simp add: index_SeverityName_Info)
  show ?thesis
    using L index_SeverityName_Info l1 [unfolded name] y l2 [unfolded name] by blast
qed

section \<open>Runs\<close>

lemma call_logf: "call f e now rendered g = logf e now (severityOf f) rendered g"
  by (cases f) (simp_all add: log_def)

lemma severityOf_below_Last: "sint (severityOf f) < 7"
  by (cases f) simp_all

lemma severityOf_range: "0 \<le> sint (severityOf f) \<and> sint (severityOf f) \<le> 6"
  by (cases f) simp_all

lemma call_at_SeverityLast:
  "logLevel g = SeverityLast \<Longrightarrow> call f e now rendered g = (Returned, g, [])"
  by (simp add: call_logf logf_filtered severityOf_below_Last)

lemma run_calls_at_SeverityLast:
  "logLevel g = SeverityLast \<Longrightarrow> \<forall>a \<in> set acts. isCall a \<Longrightarrow>
     run intSize (fl, g) acts = (Returned, (fl, g), [])"
proof (induction acts)
  case Nil
  then show ?case by simp
next
  case (Cons a acts)
  from Cons.prems(2) obtain f e now rendered where a: "a = Call f e now rendered"
    by (cases a) auto
  from Cons.prems(1) have "step intSize (fl, g) a = (Returned, (fl, g), [])"
    by (simp add: a call_at_SeverityLast)
  moreover from Cons have "run intSize (fl, g) acts = (Returned, (fl, g), [])" by simp
  ultimately show ?case by simp
qed

text \<open>
  C6. The threshold of the initial state is \<open>SeverityLast\<close>, which is strictly above the
  severity of every public function. Hence every public call in the initial state returns
  with the state unchanged and an empty trace, and so does every run made of public calls
  only (a process in which \<open>Init\<close> is never called, so that no flag hook exists either): the
  threshold stays \<open>SeverityLast\<close> and no message is accepted.
\<close>

theorem without_Init_nothing_is_logged:
  "logLevel globals0 = SeverityLast \<and>
   (\<forall>f. sint (severityOf f) < sint SeverityLast) \<and>
   (\<forall>f e now rendered. call f e now rendered globals0 = (Returned, globals0, [])) \<and>
   ((\<forall>a \<in> set acts. isCall a) \<longrightarrow>
      run intSize (fl, globals0) acts = (Returned, (fl, globals0), []))"
proof -
  have l: "logLevel globals0 = SeverityLast" by (simp add: globals0_def)
  moreover have "\<forall>f. sint (severityOf f) < sint SeverityLast"
    by (simp add: severityOf_below_Last)
  moreover have "\<forall>f e now rendered. call f e now rendered globals0 = (Returned, globals0, [])"
    using l by (simp add: call_at_SeverityLast)
  moreover have "run intSize (fl, globals0) acts = (Returned, (fl, globals0), [])"
    if "\<forall>a \<in> set acts. isCall a"
    using l that by (rule run_calls_at_SeverityLast)
  ultimately show ?thesis by blast
qed

theorem without_Init_nothing_is_logged_witness:
  "isCall (Call Debug envOk clock0 ''boom'') \<and> isCall (Call Fatalf envOk clock0 ''boom'') \<and>
   run 64 ({}, globals0) [Call Debug envOk clock0 ''boom'', Call Fatalf envOk clock0 ''boom''] =
     (Returned, ({}, globals0), []) \<and>
   call Fatal envOk clock0 ''boom'' globals0 = (Returned, globals0, [])"
  using without_Init_nothing_is_logged
          [where acts = "[Call Debug envOk clock0 ''boom'', Call Fatalf envOk clock0 ''boom'']"
             and intSize = 64 and fl = "{}"]
  by simp

text \<open>
  C10. In the initial state the two configuration pointers are nil. Every public call in
  that state, and every run of public calls from it, returns without a panic: it stops at
  the filter, with an empty trace, before the code that dereferences \<open>useSyslog\<close>. The
  sentinel is what protects the call: in any state whose \<open>useSyslog\<close> is nil and whose
  threshold lets the call through, a call with a non-empty trimmed message panics on the
  nil dereference.
\<close>

theorem nil_pointers_not_reached_before_Init:
  "useSyslog globals0 = None \<and> fileName globals0 = None \<and>
   call f e now rendered globals0 = (Returned, globals0, []) \<and>
   ((\<forall>a \<in> set acts. isCall a) \<longrightarrow>
      (\<forall>p. fst (run intSize (fl, globals0) acts) \<noteq> Panicked p)) \<and>
   (useSyslog g = None \<and> sint (logLevel g) \<le> sint (severityOf f) \<and>
    TrimSpace (TrimSuffix rendered [CHR 0x0A]) \<noteq> [] \<longrightarrow>
      call f e now rendered g = (Panicked NilDereference, g, [Lock, Unlock]))"
proof -
  have "useSyslog globals0 = None" "fileName globals0 = None" "logLevel globals0 = SeverityLast"
    by (simp_all add: globals0_def)
  moreover have "call f e now rendered globals0 = (Returned, globals0, [])"
    by (rule call_at_SeverityLast) (simp add: globals0_def)
  moreover have "\<forall>p. fst (run intSize (fl, globals0) acts) \<noteq> Panicked p"
    if "\<forall>a \<in> set acts. isCall a"
    using run_calls_at_SeverityLast [OF \<open>logLevel globals0 = SeverityLast\<close> that, of intSize fl]
    by simp
  moreover have "call f e now rendered g = (Panicked NilDereference, g, [Lock, Unlock])"
    if "useSyslog g = None" "sint (logLevel g) \<le> sint (severityOf f)"
      "TrimSpace (TrimSuffix rendered [CHR 0x0A]) \<noteq> []"
    using that by (simp add: call_logf logf_accepted trimmed_def resolveSyslogger_def)
  ultimately show ?thesis by blast
qed

theorem nil_pointers_not_reached_before_Init_witness:
  "call Info envOk clock0 ''boom'' globals0 = (Returned, globals0, []) \<and>
   isCall (Call Info envOk clock0 ''boom'') \<and>
   fst (run 64 ({}, globals0) [Call Info envOk clock0 ''boom'']) \<noteq> Panicked NilDereference \<and>
   useSyslog (globals0\<lparr>logLevel := SeverityDebug\<rparr>) = None \<and>
   sint (logLevel (globals0\<lparr>logLevel := SeverityDebug\<rparr>)) \<le> sint (severityOf Info) \<and>
   TrimSpace (TrimSuffix ''boom'' [CHR 0x0A]) \<noteq> [] \<and>
   call Info envOk clock0 ''boom'' (globals0\<lparr>logLevel := SeverityDebug\<rparr>) =
     (Panicked NilDereference, globals0\<lparr>logLevel := SeverityDebug\<rparr>, [Lock, Unlock])"
proof -
  have t: "TrimSpace (TrimSuffix ''boom'' [CHR 0x0A]) \<noteq> []"
    using trimmed_boom by (simp add: trimmed_def)
  have u: "useSyslog (globals0\<lparr>logLevel := SeverityDebug\<rparr>) = None"
    by (simp add: globals0_def)
  have l: "sint (logLevel (globals0\<lparr>logLevel := SeverityDebug\<rparr>)) \<le> sint (severityOf Info)"
    by simp
  have c: "isCall (Call Info envOk clock0 ''boom'')" by simp
  from nil_pointers_not_reached_before_Init
         [where f = Info and e = envOk and now = clock0 and rendered = "''boom''"
            and acts = "[Call Info envOk clock0 ''boom'']" and intSize = 64 and fl = "{}"
            and g = "globals0\<lparr>logLevel := SeverityDebug\<rparr>"]
  show ?thesis using t u l c by simp
qed

section \<open>Resolution happens once\<close>

lemma resolveOutFd_open_form:
  "resolveOutFd e g = (r, ev) \<Longrightarrow>
     \<forall>x \<in> set ev. \<exists>path. x = OpenFile path [O_WRONLY, O_APPEND, O_CREATE] 420"
  by (auto simp: resolveOutFd_def split: option.splits if_splits sum.splits)

lemma resolvesOnce_idle: "resolvesOnce g g oc []"
  by (simp add: resolvesOnce_def)

lemma resolvesOnce_same_handles:
  "syslogger g' = syslogger g \<Longrightarrow> outFd g' = outFd g \<Longrightarrow> resolvesOnce g g' oc []"
  by (simp add: resolvesOnce_def)

lemma logf_resolvesOnce:
  assumes L: "logf e now severity rendered g = (oc, g', ev)"
  shows "resolvesOnce g g' oc ev"
proof (cases "sint (logLevel g) \<le> sint severity \<and> trimmed rendered \<noteq> []")
  case False
  then have "logf e now severity rendered g = (Returned, g, [])"
    using logf_filtered [of severity g e now rendered] logf_empty [of rendered e now severity g]
    by auto
  with L show ?thesis by (simp add: resolvesOnce_idle)
next
  case True
  then have A: "sint (logLevel g) \<le> sint severity" and M: "trimmed rendered \<noteq> []"
    by simp_all
  from logf_accepted_cases [OF A M L] show ?thesis
  proof (elim disjE exE conjE)
    fix p ev1
    assume R1: "resolveSyslogger e g = (Inl p, ev1)" and o: "oc = Panicked p" and g: "g' = g"
      and E: "ev = [Lock] @ ev1 @ [Unlock]"
    from resolveSyslogger_events [OF R1] o g E show ?thesis
      by (auto simp: resolvesOnce_def constructions_def)
  next
    fix g1 ev1 p ev2
    assume R1: "resolveSyslogger e g = (Inr g1, ev1)" and R2: "resolveOutFd e g1 = (Inl p, ev2)"
      and o: "oc = Panicked p" and g: "g' = g1" and E: "ev = [Lock] @ ev1 @ ev2 @ [Unlock]"
    from resolveSyslogger_events [OF R1] resolveSyslogger_state [OF R1]
      resolveOutFd_events [OF R2] resolveOutFd_open_form [OF R2] o g E
    show ?thesis
      by (auto simp: resolvesOnce_def constructions_def opens_def)
  next
    fix g1 ev1 ev2 p
    assume R1: "resolveSyslogger e g = (Inr g1, ev1)" and R2: "resolveOutFd e g1 = (Inr g', ev2)"
      and o: "oc = Panicked p" and E: "ev = [Lock] @ ev1 @ ev2 @ [Unlock]"
    from resolveSyslogger_events [OF R1] resolveSyslogger_state [OF R1]
      resolveOutFd_events [OF R2] resolveOutFd_state [OF R2] resolveOutFd_open_form [OF R2] o E
    show ?thesis
      by (auto simp: resolvesOnce_def constructions_def opens_def)
  next
    fix g1 ev1 ev2 ev3
    assume R1: "resolveSyslogger e g = (Inr g1, ev1)" and R2: "resolveOutFd e g1 = (Inr g', ev2)"
      and R3: "writeRecord now severity (trimmed rendered) g' = (None, ev3)"
      and E: "ev = [Lock] @ ev1 @ ev2 @ ev3 @
                [if sint severity \<ge> sint SeverityFatal then Exit 255 else Unlock]"
    have c: "constructions ev = constructions ev1" and op: "opens ev = opens ev2"
      using resolveSyslogger_events [OF R1] resolveOutFd_events [OF R2] writeRecord_events [OF R3] E
      by simp_all
    have w: "\<forall>fd l. FileWriteString fd l \<in> set ev \<longrightarrow> outFd g' = Some fd"
      "\<forall>h prio m. WriteLevel h prio m \<in> set ev \<longrightarrow> syslogger g' = Some h"
      using resolveSyslogger_events [OF R1] resolveOutFd_events [OF R2] writeRecord_shape [OF R3] E
      by (auto split: if_splits)
    have wr: "writes ev = writes ev3"
      using resolveSyslogger_events [OF R1] resolveOutFd_events [OF R2] E by simp
    have s1: "\<forall>h. syslogger g = Some h \<longrightarrow>
                (\<forall>x \<in> set (writes ev). \<exists>prio m. x = WriteLevel h prio m)"
      using wr resolveSyslogger_state [OF R1] resolveOutFd_state [OF R2] writeRecord_shape [OF R3]
      by auto
    have s2: "\<forall>fd. outFd g = Some fd \<longrightarrow>
                (\<forall>x \<in> set (writes ev).
                   (\<exists>l. x = FileWriteString fd l) \<or> (\<exists>h prio m. x = WriteLevel h prio m))"
      using wr resolveSyslogger_state [OF R1] resolveOutFd_state [OF R2] writeRecord_shape [OF R3]
      by auto
    have rest: "length (opens ev) \<le> 1 \<and> length (constructions ev) \<le> 1 \<and>
       (outFd g \<noteq> None \<longrightarrow> opens ev = [] \<and> outFd g' = outFd g) \<and>
       (syslogger g \<noteq> None \<longrightarrow> constructions ev = [] \<and> syslogger g' = syslogger g) \<and>
       (opens ev \<noteq> [] \<and> oc = Returned \<longrightarrow> outFd g' \<noteq> None) \<and>
       (constructions ev \<noteq> [] \<and> oc = Returned \<longrightarrow> syslogger g' \<noteq> None) \<and>
       (\<forall>x \<in> set (opens ev). \<exists>path. x = OpenFile path [O_WRONLY, O_APPEND, O_CREATE] 420)"
      using c op resolveSyslogger_events [OF R1] resolveSyslogger_state [OF R1]
        resolveOutFd_events [OF R2] resolveOutFd_state [OF R2] resolveOutFd_open_form [OF R2]
      by (auto simp: constructions_def opens_def)
    from rest w s1 s2 show ?thesis
      unfolding resolvesOnce_def by blast
  qed
qed

lemma Init_handles:
  "Init app lvl fac (fl, g) = (r, fl', g') \<Longrightarrow> syslogger g' = syslogger g \<and> outFd g' = outFd g"
  by (auto simp: Init_def Let_def split: if_splits)

lemma step_resolvesOnce:
  assumes "step intSize (fl, g) a = (oc, (fl', g'), ev)"
  shows "resolvesOnce g g' oc ev"
proof (cases a)
  case (Call f e now rendered)
  with assms have "logf e now (severityOf f) rendered g = (oc, g', ev)"
    by (auto simp: call_logf split: prod.splits)
  then show ?thesis by (rule logf_resolvesOnce)
next
  case (CallInit app lvl fac)
  obtain r fl1 g1 where I: "Init app lvl fac (fl, g) = (r, fl1, g1)"
    by (cases "Init app lvl fac (fl, g)")
  with assms CallInit have "g' = g1" "ev = []"
    by (cases r; simp)+
  with Init_handles [OF I] show ?thesis by (simp add: resolvesOnce_same_handles)
next
  case (FlagSyslog b)
  with assms show ?thesis by (auto simp: resolvesOnce_same_handles)
next
  case (FlagLogfile path)
  with assms show ?thesis by (auto simp: resolvesOnce_same_handles)
next
  case (FlagLoglevel strVal)
  with assms show ?thesis by (auto simp: resolvesOnce_same_handles)
qed

text \<open>Two steps in a row keep the property.\<close>

lemma resolvesOnce_trans:
  assumes 1: "resolvesOnce g g1 Returned ev1" and 2: "resolvesOnce g1 g2 oc ev2"
  shows "resolvesOnce g g2 oc (ev1 @ ev2)"
proof -
  from 1 have
    a1: "length (opens ev1) \<le> 1" and a2: "length (constructions ev1) \<le> 1" and
    a3: "outFd g \<noteq> None \<Longrightarrow> opens ev1 = [] \<and> outFd g1 = outFd g" and
    a4: "syslogger g \<noteq> None \<Longrightarrow> constructions ev1 = [] \<and> syslogger g1 = syslogger g" and
    a5: "opens ev1 \<noteq> [] \<Longrightarrow> outFd g1 \<noteq> None" and
    a6: "constructions ev1 \<noteq> [] \<Longrightarrow> syslogger g1 \<noteq> None" and
    a7: "\<And>fd l. FileWriteString fd l \<in> set ev1 \<Longrightarrow> outFd g1 = Some fd" and
    a8: "\<And>h prio m. WriteLevel h prio m \<in> set ev1 \<Longrightarrow> syslogger g1 = Some h" and
    a9: "\<forall>x \<in> set (opens ev1). \<exists>path. x = OpenFile path [O_WRONLY, O_APPEND, O_CREATE] 420" and
    a10: "\<And>h. syslogger g = Some h \<Longrightarrow> \<forall>x \<in> set (writes ev1). \<exists>prio m. x = WriteLevel h prio m" and
    a11: "\<And>fd. outFd g = Some fd \<Longrightarrow>
            \<forall>x \<in> set (writes ev1).
              (\<exists>l. x = FileWriteString fd l) \<or> (\<exists>h prio m. x = WriteLevel h prio m)"
    unfolding resolvesOnce_def by blast+
  from 2 have
    b1: "length (opens ev2) \<le> 1" and b2: "length (constructions ev2) \<le> 1" and
    b3: "outFd g1 \<noteq> None \<Longrightarrow> opens ev2 = [] \<and> outFd g2 = outFd g1" and
    b4: "syslogger g1 \<noteq> None \<Longrightarrow> constructions ev2 = [] \<and> syslogger g2 = syslogger g1" and
    b5: "opens ev2 \<noteq> [] \<and> oc = Returned \<Longrightarrow> outFd g2 \<noteq> None" and
    b6: "constructions ev2 \<noteq> [] \<and> oc = Returned \<Longrightarrow> syslogger g2 \<noteq> None" and
    b7: "\<And>fd l. FileWriteString fd l \<in> set ev2 \<Longrightarrow> outFd g2 = Some fd" and
    b8: "\<And>h prio m. WriteLevel h prio m \<in> set ev2 \<Longrightarrow> syslogger g2 = Some h" and
    b9: "\<forall>x \<in> set (opens ev2). \<exists>path. x = OpenFile path [O_WRONLY, O_APPEND, O_CREATE] 420" and
    b10: "\<And>h. syslogger g1 = Some h \<Longrightarrow> \<forall>x \<in> set (writes ev2). \<exists>prio m. x = WriteLevel h prio m" and
    b11: "\<And>fd. outFd g1 = Some fd \<Longrightarrow>
            \<forall>x \<in> set (writes ev2).
              (\<exists>l. x = FileWriteString fd l) \<or> (\<exists>h prio m. x = WriteLevel h prio m)"
    unfolding resolvesOnce_def by blast+
  have c1: "length (opens (ev1 @ ev2)) \<le> 1"
  proof (cases "opens ev1 = []")
    case True
    with b1 show ?thesis by simp
  next
    case False
    with a5 b3 have "opens ev2 = []" by blast
    with a1 show ?thesis by simp
  qed
  have c2: "length (constructions (ev1 @ ev2)) \<le> 1"
  proof (cases "constructions ev1 = []")
    case True
    with b2 show ?thesis by simp
  next
    case False
    with a6 b4 have "constructions ev2 = []" by blast
    with a2 show ?thesis by simp
  qed
  have c3: "outFd g \<noteq> None \<longrightarrow> opens (ev1 @ ev2) = [] \<and> outFd g2 = outFd g"
  proof
    assume n: "outFd g \<noteq> None"
    with a3 have "opens ev1 = []" "outFd g1 = outFd g" by simp_all
    moreover with n b3 have "opens ev2 = []" "outFd g2 = outFd g1" by simp_all
    ultimately show "opens (ev1 @ ev2) = [] \<and> outFd g2 = outFd g" by simp
  qed
  have c4: "syslogger g \<noteq> None \<longrightarrow> constructions (ev1 @ ev2) = [] \<and> syslogger g2 = syslogger g"
  proof
    assume n: "syslogger g \<noteq> None"
    with a4 have "constructions ev1 = []" "syslogger g1 = syslogger g" by simp_all
    moreover with n b4 have "constructions ev2 = []" "syslogger g2 = syslogger g1" by simp_all
    ultimately show "constructions (ev1 @ ev2) = [] \<and> syslogger g2 = syslogger g" by simp
  qed
  have c5: "opens (ev1 @ ev2) \<noteq> [] \<and> oc = Returned \<longrightarrow> outFd g2 \<noteq> None"
  proof (cases "opens ev1 = []")
    case True
    with b5 show ?thesis by simp
  next
    case False
    with a5 b3 show ?thesis by simp
  qed
  have c6: "constructions (ev1 @ ev2) \<noteq> [] \<and> oc = Returned \<longrightarrow> syslogger g2 \<noteq> None"
  proof (cases "constructions ev1 = []")
    case True
    with b6 show ?thesis by simp
  next
    case False
    with a6 b4 show ?thesis by simp
  qed
  have c7: "\<forall>fd l. FileWriteString fd l \<in> set (ev1 @ ev2) \<longrightarrow> outFd g2 = Some fd"
  proof (intro allI impI)
    fix fd l
    assume "FileWriteString fd l \<in> set (ev1 @ ev2)"
    then consider "FileWriteString fd l \<in> set ev1" | "FileWriteString fd l \<in> set ev2" by auto
    then show "outFd g2 = Some fd"
    proof cases
      case 1
      then have "outFd g1 = Some fd" by (rule a7)
      with b3 show ?thesis by simp
    next
      case 2
      then show ?thesis by (rule b7)
    qed
  qed
  have c8: "\<forall>h prio m. WriteLevel h prio m \<in> set (ev1 @ ev2) \<longrightarrow> syslogger g2 = Some h"
  proof (intro allI impI)
    fix h prio m
    assume "WriteLevel h prio m \<in> set (ev1 @ ev2)"
    then consider "WriteLevel h prio m \<in> set ev1" | "WriteLevel h prio m \<in> set ev2" by auto
    then show "syslogger g2 = Some h"
    proof cases
      case 1
      then have "syslogger g1 = Some h" by (rule a8)
      with b4 show ?thesis by simp
    next
      case 2
      then show ?thesis by (rule b8)
    qed
  qed
  have c9: "\<forall>x \<in> set (opens (ev1 @ ev2)).
              \<exists>path. x = OpenFile path [O_WRONLY, O_APPEND, O_CREATE] 420"
    using a9 b9 by auto
  have c10: "\<forall>h. syslogger g = Some h \<longrightarrow>
               (\<forall>x \<in> set (writes (ev1 @ ev2)). \<exists>prio m. x = WriteLevel h prio m)"
  proof (intro allI impI)
    fix h
    assume h: "syslogger g = Some h"
    with a4 have "syslogger g1 = Some h" by simp
    with a10 [OF h] b10 show "\<forall>x \<in> set (writes (ev1 @ ev2)). \<exists>prio m. x = WriteLevel h prio m"
      by auto
  qed
  have c11: "\<forall>fd. outFd g = Some fd \<longrightarrow>
               (\<forall>x \<in> set (writes (ev1 @ ev2)).
                  (\<exists>l. x = FileWriteString fd l) \<or> (\<exists>h prio m. x = WriteLevel h prio m))"
  proof (intro allI impI)
    fix fd
    assume f: "outFd g = Some fd"
    with a3 have "outFd g1 = Some fd" by simp
    with a11 [OF f] b11
    show "\<forall>x \<in> set (writes (ev1 @ ev2)).
            (\<exists>l. x = FileWriteString fd l) \<or> (\<exists>h prio m. x = WriteLevel h prio m)"
      by auto
  qed
  from c1 c2 c3 c4 c5 c6 c7 c8 c9 c10 c11 show ?thesis
    unfolding resolvesOnce_def by (intro conjI)
qed

lemma run_resolvesOnce:
  "run intSize (fl, g) acts = (oc, (fl', g'), ev) \<Longrightarrow> resolvesOnce g g' oc ev"
proof (induction acts arbitrary: fl g oc fl' g' ev)
  case Nil
  then show ?case by (simp add: resolvesOnce_idle)
next
  case (Cons a acts)
  obtain oc1 fl1 g1 ev1 where S: "step intSize (fl, g) a = (oc1, (fl1, g1), ev1)"
    by (metis prod.exhaust)
  show ?case
  proof (cases "oc1 = Returned")
    case True
    obtain oc2 fl2 g2 ev2 where R: "run intSize (fl1, g1) acts = (oc2, (fl2, g2), ev2)"
      by (metis prod.exhaust)
    from Cons.prems S True R have "oc = oc2" "g' = g2" "ev = ev1 @ ev2" by simp_all
    moreover from S True have "resolvesOnce g g1 Returned ev1"
      using step_resolvesOnce by blast
    moreover from R have "resolvesOnce g1 g2 oc2 ev2" by (rule Cons.IH)
    ultimately show ?thesis by (simp add: resolvesOnce_trans)
  next
    case False
    with Cons.prems S have "oc = oc1" "g' = g1" "ev = ev1"
      by (cases oc1; simp)+
    with S show ?thesis using step_resolvesOnce by blast
  qed
qed

text \<open>Resolution keeps the destination that the state selects, and the write goes there.\<close>

lemma resolveSyslogger_sinkOf:
  "resolveSyslogger e g = (Inr g1, ev) \<Longrightarrow>
     sinkOf g1 = sinkOf g \<and> (sinkOf g = ToSyslog \<longleftrightarrow> syslogger g1 \<noteq> None)"
  by (auto simp: resolveSyslogger_def sinkOf_def split: option.splits if_splits sum.splits)

lemma resolveOutFd_sinkOf:
  "resolveOutFd e g1 = (Inr g2, ev) \<Longrightarrow>
     sinkOf g2 = sinkOf g1 \<and> syslogger g2 = syslogger g1 \<and>
     (sinkOf g1 = ToFile \<longrightarrow> outFd g2 \<noteq> None) \<and>
     (sinkOf g1 = ToStderr \<longrightarrow> outFd g2 = None)"
  by (auto simp: resolveOutFd_def sinkOf_def split: option.splits if_splits sum.splits)

lemma writeRecord_sink:
  assumes "writeRecord now sev m g = (None, ev)"
    and "sinkOf g = ToSyslog \<longleftrightarrow> syslogger g \<noteq> None"
    and "sinkOf g = ToFile \<longrightarrow> outFd g \<noteq> None"
    and "sinkOf g = ToStderr \<longrightarrow> outFd g = None"
  shows "\<forall>x \<in> set (writes ev). eventSink x = Some (sinkOf g)"
proof -
  have s: "sinkOf g = ToSyslog \<or> sinkOf g = ToFile \<or> sinkOf g = ToStderr"
    by (cases "sinkOf g") simp_all
  from writeRecord_shape [OF assms(1)] show ?thesis
  proof (elim disjE exE conjE)
    fix h prio
    assume "syslogger g = Some h" "ev = [WriteLevel h prio m]"
    with assms(2) show ?thesis by simp
  next
    fix name fd
    assume "syslogger g = None" "outFd g = Some fd"
      "ev = [FileWriteString fd (formatLine now (appName g) name m), FileSync fd]"
    with assms(2,4) s show ?thesis by auto
  next
    fix name
    assume "syslogger g = None" "outFd g = None"
      "ev = [StderrWriteString (formatLine now (appName g) name m)]"
    with assms(2,3) s show ?thesis by auto
  qed
qed

lemma logf_sink:
  assumes L: "logf e now severity rendered g = (oc, g', ev)"
  shows "(\<forall>x \<in> set (writes ev). eventSink x = Some (sinkOf g)) \<and> sinkOf g' = sinkOf g"
proof (cases "sint (logLevel g) \<le> sint severity \<and> trimmed rendered \<noteq> []")
  case False
  then have "logf e now severity rendered g = (Returned, g, [])"
    using logf_filtered [of severity g e now rendered] logf_empty [of rendered e now severity g]
    by auto
  with L show ?thesis by simp
next
  case True
  then have A: "sint (logLevel g) \<le> sint severity" and M: "trimmed rendered \<noteq> []"
    by simp_all
  from logf_accepted_cases [OF A M L] show ?thesis
  proof (elim disjE exE conjE)
    fix p ev1
    assume R1: "resolveSyslogger e g = (Inl p, ev1)" and g: "g' = g"
      and E: "ev = [Lock] @ ev1 @ [Unlock]"
    from resolveSyslogger_events [OF R1] g E show ?thesis by simp
  next
    fix g1 ev1 p ev2
    assume R1: "resolveSyslogger e g = (Inr g1, ev1)" and R2: "resolveOutFd e g1 = (Inl p, ev2)"
      and g: "g' = g1" and E: "ev = [Lock] @ ev1 @ ev2 @ [Unlock]"
    from resolveSyslogger_events [OF R1] resolveOutFd_events [OF R2]
      resolveSyslogger_sinkOf [OF R1] g E
    show ?thesis by simp
  next
    fix g1 ev1 ev2 p
    assume R1: "resolveSyslogger e g = (Inr g1, ev1)" and R2: "resolveOutFd e g1 = (Inr g', ev2)"
      and E: "ev = [Lock] @ ev1 @ ev2 @ [Unlock]"
    from resolveSyslogger_events [OF R1] resolveOutFd_events [OF R2]
      resolveSyslogger_sinkOf [OF R1] resolveOutFd_sinkOf [OF R2] E
    show ?thesis by simp
  next
    fix g1 ev1 ev2 ev3
    assume R1: "resolveSyslogger e g = (Inr g1, ev1)" and R2: "resolveOutFd e g1 = (Inr g', ev2)"
      and R3: "writeRecord now severity (trimmed rendered) g' = (None, ev3)"
      and E: "ev = [Lock] @ ev1 @ ev2 @ ev3 @
                [if sint severity \<ge> sint SeverityFatal then Exit 255 else Unlock]"
    have k: "sinkOf g' = sinkOf g" "sinkOf g' = ToSyslog \<longleftrightarrow> syslogger g' \<noteq> None"
      "sinkOf g' = ToFile \<longrightarrow> outFd g' \<noteq> None" "sinkOf g' = ToStderr \<longrightarrow> outFd g' = None"
      using resolveSyslogger_sinkOf [OF R1] resolveOutFd_sinkOf [OF R2] by simp_all
    have "writes ev = writes ev3"
      using resolveSyslogger_events [OF R1] resolveOutFd_events [OF R2] E by simp
    with writeRecord_sink [OF R3 k(2) k(3) k(4)] k(1) show ?thesis by simp
  qed
qed

lemma run_calls_sink:
  "\<forall>a \<in> set acts. isCall a \<Longrightarrow> run intSize (fl, g) acts = (oc, (fl', g'), ev) \<Longrightarrow>
     (\<forall>x \<in> set (writes ev). eventSink x = Some (sinkOf g)) \<and> sinkOf g' = sinkOf g"
proof (induction acts arbitrary: fl g oc fl' g' ev)
  case Nil
  then show ?case by simp
next
  case (Cons a acts)
  from Cons.prems(1) obtain f e now rendered where a: "a = Call f e now rendered"
    by (cases a) auto
  obtain oc1 g1 ev1 where L: "logf e now (severityOf f) rendered g = (oc1, g1, ev1)"
    by (metis prod.exhaust)
  then have S: "step intSize (fl, g) a = (oc1, (fl, g1), ev1)"
    by (simp add: a call_logf)
  note s1 = logf_sink [OF L]
  show ?case
  proof (cases "oc1 = Returned")
    case True
    obtain oc2 fl2 g2 ev2 where R: "run intSize (fl, g1) acts = (oc2, (fl2, g2), ev2)"
      by (metis prod.exhaust)
    from Cons.prems(2) S True R have "g' = g2" "ev = ev1 @ ev2" by simp_all
    moreover from Cons.prems(1) R
    have "(\<forall>x \<in> set (writes ev2). eventSink x = Some (sinkOf g1)) \<and> sinkOf g2 = sinkOf g1"
      using Cons.IH by simp
    ultimately show ?thesis using s1 by auto
  next
    case False
    with Cons.prems(2) S have "g' = g1" "ev = ev1"
      by (cases oc1; simp)+
    with s1 show ?thesis by simp
  qed
qed

text \<open>A process that initialises, has a log file set by the flag parser and logs twice.\<close>

lemma Init_example:
  "Init ''myapp'' SeverityDebug [] ({}, globals0) =
     (Return None, {''loglevel'', ''logfile'', ''syslog''}, gStderr)"
  by (simp add: Init_def Let_def globals0_def gStderr_def Severity_set_def)

lemma logf_Info_boom_gFile:
  "logf envOk now SeverityInfo ''boom'' gFile =
     (Returned, gFile\<lparr>outFd := Some 3\<rparr>,
      [Lock, OpenFile ''/var/log/myapp.log'' [O_WRONLY, O_APPEND, O_CREATE] 420,
       FileWriteString 3 (formatLine now ''myapp'' ''INFO'' ''boom''), FileSync 3, Unlock])"
  by (simp add: logf_accepted trimmed_boom gFile_def gStderr_def envOk_def
      resolveSyslogger_def resolveOutFd_def writeRecord_def index_SeverityName_Info)

lemma logf_Info_boom_opened:
  "logf envDenied now SeverityInfo ''boom'' (gFile\<lparr>outFd := Some 3\<rparr>) =
     (Returned, gFile\<lparr>outFd := Some 3\<rparr>,
      [Lock, FileWriteString 3 (formatLine now ''myapp'' ''INFO'' ''boom''), FileSync 3, Unlock])"
  by (simp add: logf_accepted trimmed_boom gFile_def gStderr_def
      resolveSyslogger_def resolveOutFd_def writeRecord_def index_SeverityName_Info)

lemma run_example:
  "run 64 ({}, globals0)
     [CallInit ''myapp'' SeverityDebug [], FlagLogfile ''/var/log/myapp.log'',
      Call Infof envOk clock0 ''boom'', Call Info envDenied clock0 ''boom''] =
   (Returned, ({''loglevel'', ''logfile'', ''syslog''}, gFile\<lparr>outFd := Some 3\<rparr>),
    [Lock, OpenFile ''/var/log/myapp.log'' [O_WRONLY, O_APPEND, O_CREATE] 420,
     FileWriteString 3 (formatLine clock0 ''myapp'' ''INFO'' ''boom''), FileSync 3, Unlock,
     Lock, FileWriteString 3 (formatLine clock0 ''myapp'' ''INFO'' ''boom''), FileSync 3,
     Unlock])"
proof -
  have "gStderr\<lparr>fileName := map_option (\<lambda>old. ''/var/log/myapp.log'') (fileName gStderr)\<rparr> = gFile"
    by (simp add: gFile_def gStderr_def)
  then show ?thesis
    by (simp add: Init_example log_def logf_Info_boom_gFile logf_Info_boom_opened)
qed

lemma logf_Info_boom_switched:
  "logf envOk now SeverityInfo ''boom'' (gFile\<lparr>outFd := Some 3, useSyslog := Some True\<rparr>) =
     (Returned, gFile\<lparr>outFd := Some 3, useSyslog := Some True, syslogger := Some 1\<rparr>,
      [Lock, NewLogger LOG_INFO ''DAEMON'' ''myapp'', WriteLevel 1 LOG_INFO ''boom'', Unlock])"
  by (simp add: logf_accepted trimmed_boom gFile_def gStderr_def envOk_def
      resolveSyslogger_def resolveOutFd_def writeRecord_def index_Priority_Info)

text \<open>The same process, when the flag parser sets the system-logger switch between the two calls.\<close>

lemma run_switch_example:
  "run 64 ({}, globals0)
     [CallInit ''myapp'' SeverityDebug [], FlagLogfile ''/var/log/myapp.log'',
      Call Infof envOk clock0 ''boom'', FlagSyslog True, Call Info envOk clock0 ''boom''] =
   (Returned,
    ({''loglevel'', ''logfile'', ''syslog''},
     gFile\<lparr>outFd := Some 3, useSyslog := Some True, syslogger := Some 1\<rparr>),
    [Lock, OpenFile ''/var/log/myapp.log'' [O_WRONLY, O_APPEND, O_CREATE] 420,
     FileWriteString 3 (formatLine clock0 ''myapp'' ''INFO'' ''boom''), FileSync 3, Unlock,
     Lock, NewLogger LOG_INFO ''DAEMON'' ''myapp'', WriteLevel 1 LOG_INFO ''boom'', Unlock])"
proof -
  have 1: "gStderr\<lparr>fileName := map_option (\<lambda>old. ''/var/log/myapp.log'') (fileName gStderr)\<rparr> = gFile"
    by (simp add: gFile_def gStderr_def)
  have 2: "useSyslog gFile = Some False"
    by (simp add: gFile_def gStderr_def)
  show ?thesis
    by (simp add: Init_example log_def logf_Info_boom_gFile 1 2 logf_Info_boom_switched)
qed

text \<open>
  C7, as amended. In every run of a process (public calls, \<open>Init\<close>, and the flag parser
  changing the switch, the path or the threshold between them, in any order), from any
  state, each of the two handles is resolved at most once and then kept:
  \<^item> the trace has at most one opening of a file and at most one construction of a
    system-logger client, and every opening is for writing, in append mode, creating the
    file, with mode 0644;
  \<^item> a handle that is there at the start is never replaced and nothing is opened (or
    constructed) again;
  \<^item> every write to a file is on the file handle that the state holds at the end of the
    run, and every write to the system logger is on the client that it holds at the end: all
    calls write through the same handle;
  \<^item> once there is a system-logger client, every write goes to it, and once there is a file
    handle, every write goes to that file or to the system logger, never to standard error.
  The destination itself is sticky as long as the configuration is left alone: in a run
  made of public calls only, every write goes to the one destination that the state
  selects at the start, and the state selects it still at the end.
  For a configured file path: a call that passes the filter with a non-empty trimmed
  message, in a state with a non-empty path, no file handle yet and the system-logger
  switch off, makes exactly one opening, of that path.
\<close>

theorem resolution_once_and_sticky:
  assumes "run intSize (fl, g) acts = (oc, (fl', g'), ev)"
  shows "length (opens ev) \<le> 1 \<and> length (constructions ev) \<le> 1 \<and>
         (\<forall>x \<in> set (opens ev). \<exists>p. x = OpenFile p [O_WRONLY, O_APPEND, O_CREATE] 420) \<and>
         (outFd g \<noteq> None \<longrightarrow> opens ev = [] \<and> outFd g' = outFd g) \<and>
         (syslogger g \<noteq> None \<longrightarrow> constructions ev = [] \<and> syslogger g' = syslogger g) \<and>
         (\<forall>fd l. FileWriteString fd l \<in> set ev \<longrightarrow> outFd g' = Some fd) \<and>
         (\<forall>h prio m. WriteLevel h prio m \<in> set ev \<longrightarrow> syslogger g' = Some h) \<and>
         (\<forall>h. syslogger g = Some h \<longrightarrow>
            (\<forall>x \<in> set (writes ev). \<exists>prio m. x = WriteLevel h prio m)) \<and>
         (\<forall>fd. outFd g = Some fd \<longrightarrow>
            (\<forall>x \<in> set (writes ev).
               (\<exists>l. x = FileWriteString fd l) \<or> (\<exists>h prio m. x = WriteLevel h prio m))) \<and>
         ((\<forall>a \<in> set acts. isCall a) \<longrightarrow>
            (\<forall>x \<in> set (writes ev). eventSink x = Some (sinkOf g)) \<and> sinkOf g' = sinkOf g) \<and>
         (fileName g = Some path \<and> path \<noteq> [] \<and> outFd g = None \<and> useSyslog g = Some False \<and>
          sint (logLevel g) \<le> sint severity \<and> TrimSpace (TrimSuffix rendered [CHR 0x0A]) \<noteq> [] \<longrightarrow>
            opens (snd (snd (logf e now severity rendered g))) =
              [OpenFile path [O_WRONLY, O_APPEND, O_CREATE] 420])"
proof -
  have first: "opens (snd (snd (logf e now severity rendered g))) =
                 [OpenFile path [O_WRONLY, O_APPEND, O_CREATE] 420]"
    if "fileName g = Some path" "path \<noteq> []" "outFd g = None" "useSyslog g = Some False"
      "sint (logLevel g) \<le> sint severity" "trimmed rendered \<noteq> []"
    using that
    by (simp add: logf_accepted resolveSyslogger_def resolveOutFd_def writeRecord_def Let_def
        split: sum.splits option.splits)
  have calls: "(\<forall>x \<in> set (writes ev). eventSink x = Some (sinkOf g)) \<and> sinkOf g' = sinkOf g"
    if "\<forall>a \<in> set acts. isCall a"
    using that assms by (rule run_calls_sink)
  have inv: "resolvesOnce g g' oc ev" using assms by (rule run_resolvesOnce)
  from inv have handles:
    "length (opens ev) \<le> 1 \<and> length (constructions ev) \<le> 1 \<and>
     (\<forall>x \<in> set (opens ev). \<exists>p. x = OpenFile p [O_WRONLY, O_APPEND, O_CREATE] 420) \<and>
     (outFd g \<noteq> None \<longrightarrow> opens ev = [] \<and> outFd g' = outFd g) \<and>
     (syslogger g \<noteq> None \<longrightarrow> constructions ev = [] \<and> syslogger g' = syslogger g) \<and>
     (\<forall>fd l. FileWriteString fd l \<in> set ev \<longrightarrow> outFd g' = Some fd) \<and>
     (\<forall>h prio m. WriteLevel h prio m \<in> set ev \<longrightarrow> syslogger g' = Some h) \<and>
     (\<forall>h. syslogger g = Some h \<longrightarrow>
        (\<forall>x \<in> set (writes ev). \<exists>prio m. x = WriteLevel h prio m)) \<and>
     (\<forall>fd. outFd g = Some fd \<longrightarrow>
        (\<forall>x \<in> set (writes ev).
           (\<exists>l. x = FileWriteString fd l) \<or> (\<exists>h prio m. x = WriteLevel h prio m)))"
    unfolding resolvesOnce_def by blast
  from handles calls first show ?thesis
    unfolding trimmed_def by blast
qed

theorem resolution_once_and_sticky_witness:
  "run 64 ({}, globals0)
     [CallInit ''myapp'' SeverityDebug [], FlagLogfile ''/var/log/myapp.log'',
      Call Infof envOk clock0 ''boom'', Call Info envDenied clock0 ''boom''] =
   (Returned, ({''loglevel'', ''logfile'', ''syslog''}, gFile\<lparr>outFd := Some 3\<rparr>),
    [Lock, OpenFile ''/var/log/myapp.log'' [O_WRONLY, O_APPEND, O_CREATE] 420,
     FileWriteString 3 (formatLine clock0 ''myapp'' ''INFO'' ''boom''), FileSync 3, Unlock,
     Lock, FileWriteString 3 (formatLine clock0 ''myapp'' ''INFO'' ''boom''), FileSync 3,
     Unlock]) \<and>
   length (opens
     [Lock, OpenFile ''/var/log/myapp.log'' [O_WRONLY, O_APPEND, O_CREATE] 420,
      FileWriteString 3 (formatLine clock0 ''myapp'' ''INFO'' ''boom''), FileSync 3, Unlock,
      Lock, FileWriteString 3 (formatLine clock0 ''myapp'' ''INFO'' ''boom''), FileSync 3,
      Unlock]) \<le> 1 \<and>
   outFd (gFile\<lparr>outFd := Some 3\<rparr>) = Some 3 \<and>
   fileName gFile = Some ''/var/log/myapp.log'' \<and> outFd gFile = None \<and>
   useSyslog gFile = Some False \<and> sint (logLevel gFile) \<le> sint SeverityInfo \<and>
   TrimSpace (TrimSuffix ''boom'' [CHR 0x0A]) \<noteq> [] \<and>
   opens (snd (snd (logf envOk clock0 SeverityInfo ''boom'' gFile))) =
     [OpenFile ''/var/log/myapp.log'' [O_WRONLY, O_APPEND, O_CREATE] 420] \<and>
   isCall (Call Infof envOk clock0 ''boom'') \<and>
   run 64 ({}, gFile) [Call Infof envOk clock0 ''boom''] =
     (Returned, ({}, gFile\<lparr>outFd := Some 3\<rparr>),
      [Lock, OpenFile ''/var/log/myapp.log'' [O_WRONLY, O_APPEND, O_CREATE] 420,
       FileWriteString 3 (formatLine clock0 ''myapp'' ''INFO'' ''boom''), FileSync 3, Unlock]) \<and>
   sinkOf (gFile\<lparr>outFd := Some 3\<rparr>) = sinkOf gFile"
proof -
  have t: "TrimSpace (TrimSuffix ''boom'' [CHR 0x0A]) \<noteq> []"
    using trimmed_boom by (simp add: trimmed_def)
  have g: "fileName gFile = Some ''/var/log/myapp.log''" "outFd gFile = None"
    "useSyslog gFile = Some False" "sint (logLevel gFile) \<le> sint SeverityInfo"
    by (simp_all add: gFile_def gStderr_def)
  note r = resolution_once_and_sticky [OF run_example]
  have "length (opens
     [Lock, OpenFile ''/var/log/myapp.log'' [O_WRONLY, O_APPEND, O_CREATE] 420,
      FileWriteString 3 (formatLine clock0 ''myapp'' ''INFO'' ''boom''), FileSync 3, Unlock,
      Lock, FileWriteString 3 (formatLine clock0 ''myapp'' ''INFO'' ''boom''), FileSync 3,
      Unlock]) \<le> 1"
    by (rule r [THEN conjunct1])
  moreover have "outFd (gFile\<lparr>outFd := Some 3\<rparr>) = Some 3"
    by simp
  moreover have "opens (snd (snd (logf envOk clock0 SeverityInfo ''boom'' gFile))) =
     [OpenFile ''/var/log/myapp.log'' [O_WRONLY, O_APPEND, O_CREATE] 420]"
    using resolution_once_and_sticky
            [where intSize = 64 and fl = "{}" and g = gFile and acts = "[]" and oc = Returned
               and fl' = "{}" and g' = gFile and ev = "[]"
               and path = "''/var/log/myapp.log''" and severity = SeverityInfo
               and rendered = "''boom''" and e = envOk and now = clock0]
          t g
    by simp
  moreover have c: "isCall (Call Infof envOk clock0 ''boom'')" by simp
  moreover have one: "run 64 ({}, gFile) [Call Infof envOk clock0 ''boom''] =
     (Returned, ({}, gFile\<lparr>outFd := Some 3\<rparr>),
      [Lock, OpenFile ''/var/log/myapp.log'' [O_WRONLY, O_APPEND, O_CREATE] 420,
       FileWriteString 3 (formatLine clock0 ''myapp'' ''INFO'' ''boom''), FileSync 3, Unlock])"
    by (simp add: logf_Info_boom_gFile)
  moreover have "sinkOf (gFile\<lparr>outFd := Some 3\<rparr>) = sinkOf gFile"
    using resolution_once_and_sticky [OF one] c by simp
  ultimately show ?thesis using run_example t g by (intro conjI)
qed

text \<open>
  C7 as stated fails. The destination is not sticky when the configuration changes
  between two calls: after a first call has opened the file and written to it, the flag
  parser sets the system-logger switch, and the next call constructs a client and writes
  to the system logger instead of reusing the file handle; the process has then resolved
  two destinations. And the first call past the filter does not always open the file: with
  an empty message it returns before the resolution.
\<close>

theorem destination_moves_after_flag_change:
  "snd (snd (run 64 ({}, globals0)
     [CallInit ''myapp'' SeverityDebug [], FlagLogfile ''/var/log/myapp.log'',
      Call Infof envOk clock0 ''boom'', FlagSyslog True, Call Info envOk clock0 ''boom''])) =
     [Lock, OpenFile ''/var/log/myapp.log'' [O_WRONLY, O_APPEND, O_CREATE] 420,
      FileWriteString 3 (formatLine clock0 ''myapp'' ''INFO'' ''boom''), FileSync 3, Unlock,
      Lock, NewLogger LOG_INFO ''DAEMON'' ''myapp'', WriteLevel 1 LOG_INFO ''boom'', Unlock] \<and>
   fileName gFile = Some ''/var/log/myapp.log'' \<and> outFd gFile = None \<and>
   sint (logLevel gFile) \<le> sint SeverityInfo \<and>
   logf envOk clock0 SeverityInfo [] gFile = (Returned, gFile, [])"
proof (intro conjI)
  show "snd (snd (run 64 ({}, globals0)
     [CallInit ''myapp'' SeverityDebug [], FlagLogfile ''/var/log/myapp.log'',
      Call Infof envOk clock0 ''boom'', FlagSyslog True, Call Info envOk clock0 ''boom''])) =
     [Lock, OpenFile ''/var/log/myapp.log'' [O_WRONLY, O_APPEND, O_CREATE] 420,
      FileWriteString 3 (formatLine clock0 ''myapp'' ''INFO'' ''boom''), FileSync 3, Unlock,
      Lock, NewLogger LOG_INFO ''DAEMON'' ''myapp'', WriteLevel 1 LOG_INFO ''boom'', Unlock]"
    unfolding run_switch_example by simp
  show "fileName gFile = Some ''/var/log/myapp.log''" "outFd gFile = None"
    "sint (logLevel gFile) \<le> sint SeverityInfo"
    by (simp_all add: gFile_def gStderr_def)
  show "logf envOk clock0 SeverityInfo [] gFile = (Returned, gFile, [])"
    by (simp add: logf_empty trimmed_empty)
qed

section \<open>Parsing and rendering a Severity\<close>

lemma decimal_append: "decimal acc (xs @ ys) = decimal (decimal acc xs) ys"
  by (induction xs arbitrary: acc) simp_all

lemma decimal_mono: "acc \<le> decimal acc ds"
proof (induction ds arbitrary: acc)
  case Nil
  then show ?case by simp
next
  case (Cons c cs)
  have "acc \<le> acc * 10 + ((of_char c :: nat) - 48)" by simp
  also have "\<dots> \<le> decimal (acc * 10 + ((of_char c :: nat) - 48)) cs" by (rule Cons.IH)
  finally show ?case by simp
qed

lemma byte_minus_48:
  fixes n :: nat
  assumes "n < 256"
  shows "(n + 256 - 48) mod 256 = (if 48 \<le> n then n - 48 else n + 208)"
proof (cases "48 \<le> n")
  case True
  then have "n + 256 - 48 = (n - 48) + 256" by simp
  then have "(n + 256 - 48) mod 256 = (n - 48) mod 256" by (simp only: mod_add_self2)
  with assms True show ?thesis by simp
next
  case False
  then have "n + 256 - 48 = n + 208" "n + 208 < 256" by simp_all
  with False show ?thesis by simp
qed

lemma isDigit_byte: "isDigit c \<Longrightarrow> ((of_char c :: nat) + 256 - 48) mod 256 = of_char c - 48"
  using byte_minus_48 [of "of_char c"] by (simp add: isDigit_def)

lemma not_isDigit_byte: "\<not> isDigit c \<Longrightarrow> ((of_char c :: nat) + 256 - 48) mod 256 > 9"
  using byte_minus_48 [of "of_char c"] by (auto simp: isDigit_def split: if_splits)

lemma atoiFast_digits:
  "list_all isDigit ds \<Longrightarrow> atoiFast (int acc) ds = Some (int (decimal acc ds))"
proof (induction ds arbitrary: acc)
  case Nil
  then show ?case by simp
next
  case (Cons c cs)
  then have c: "isDigit c" and cs: "list_all isDigit cs" by simp_all
  have d: "((of_char c :: nat) + 256 - 48) mod 256 = of_char c - 48"
    using c by (rule isDigit_byte)
  have le: "\<not> (of_char c :: nat) - 48 > 9" using c unfolding isDigit_def by arith
  have "atoiFast (int acc) (c # cs) =
          atoiFast (int acc * 10 + int ((of_char c :: nat) - 48)) cs"
    by (simp only: atoiFast.simps Let_def d le if_False)
  also have "\<dots> = atoiFast (int (acc * 10 + ((of_char c :: nat) - 48))) cs"
    by simp
  also have "\<dots> = Some (int (decimal (acc * 10 + ((of_char c :: nat) - 48)) cs))"
    using cs by (rule Cons.IH)
  finally show ?case by simp
qed

lemma atoiFast_not_digits: "\<not> list_all isDigit s \<Longrightarrow> atoiFast acc s = None"
proof (induction s arbitrary: acc)
  case Nil
  then show ?case by simp
next
  case (Cons c cs)
  show ?case
  proof (cases "isDigit c")
    case True
    with Cons.prems have n: "\<not> list_all isDigit cs" by simp
    have d: "((of_char c :: nat) + 256 - 48) mod 256 = of_char c - 48"
      using True by (rule isDigit_byte)
    have le: "\<not> (of_char c :: nat) - 48 > 9" using True unfolding isDigit_def by arith
    have "atoiFast acc (c # cs) = atoiFast (acc * 10 + int ((of_char c :: nat) - 48)) cs"
      by (simp only: atoiFast.simps Let_def d le if_False)
    also have "\<dots> = None" using n by (rule Cons.IH)
    finally show ?thesis .
  next
    case False
    then have "((of_char c :: nat) + 256 - 48) mod 256 > 9" by (rule not_isDigit_byte)
    then show ?thesis by (simp only: atoiFast.simps Let_def if_True)
  qed
qed

text \<open>The loop of \<open>ParseUint\<close> on digits that stay within \<open>maxVal\<close>.\<close>

lemma parseUintLoop_digits:
  "list_all isDigit ds \<Longrightarrow> decimal acc ds \<le> maxVal \<Longrightarrow> maxVal < 2 ^ 64 \<Longrightarrow>
     parseUintLoop maxVal acc ds = (decimal acc ds, None)"
proof (induction ds arbitrary: acc)
  case Nil
  then show ?case by simp
next
  case (Cons c cs)
  from Cons.prems(1) have cs: "list_all isDigit cs" by simp
  from Cons.prems(1) have c: "48 \<le> (of_char c :: nat) \<and> (of_char c :: nat) \<le> 57"
    by (simp add: isDigit_def)
  define a where "a = acc * 10 + ((of_char c :: nat) - 48)"
  have fin: "decimal a cs \<le> maxVal" using Cons.prems(2) by (simp add: a_def)
  have "a \<le> decimal a cs" by (rule decimal_mono)
  with fin have a: "a \<le> maxVal" by simp
  with Cons.prems(3) have a64: "a < 2 ^ 64" by simp
  then have "acc * 10 < 2 ^ 64" by (simp add: a_def)
  then have cut: "\<not> acc \<ge> cutoff64" by (simp add: cutoff64_def)
  have m: "(acc * 10 + ((of_char c :: nat) - 48)) mod 2 ^ 64 = a"
    using a64 by (simp add: a_def)
  have n1: "\<not> (a < acc * 10 \<or> a > maxVal)" using a by (simp add: a_def)
  have "parseUintLoop maxVal acc (c # cs) = parseUintLoop maxVal a cs"
    by (simp only: parseUintLoop.simps c simp_thms if_False Let_def cut m n1)
  also have "\<dots> = (decimal a cs, None)"
    using cs fin Cons.prems(3) by (rule Cons.IH)
  finally show ?case by (simp add: a_def)
qed

lemma parseUintLoop_stops_at_non_digit:
  "list_all isDigit ds \<Longrightarrow> \<not> isDigit c \<Longrightarrow> decimal acc ds \<le> maxVal \<Longrightarrow> maxVal < 2 ^ 64 \<Longrightarrow>
     parseUintLoop maxVal acc (ds @ c # rest) = (0, Some ErrSyntax)"
proof (induction ds arbitrary: acc)
  case Nil
  then show ?case by (simp add: isDigit_def)
next
  case (Cons d ds)
  from Cons.prems(1) have ds: "list_all isDigit ds" by simp
  from Cons.prems(1) have dd: "48 \<le> (of_char d :: nat) \<and> (of_char d :: nat) \<le> 57"
    by (simp add: isDigit_def)
  define a where "a = acc * 10 + ((of_char d :: nat) - 48)"
  have fin: "decimal a ds \<le> maxVal" using Cons.prems(3) by (simp add: a_def)
  have "a \<le> decimal a ds" by (rule decimal_mono)
  with fin have a: "a \<le> maxVal" by simp
  with Cons.prems(4) have a64: "a < 2 ^ 64" by simp
  then have "acc * 10 < 2 ^ 64" by (simp add: a_def)
  then have cut: "\<not> acc \<ge> cutoff64" by (simp add: cutoff64_def)
  have m: "(acc * 10 + ((of_char d :: nat) - 48)) mod 2 ^ 64 = a"
    using a64 by (simp add: a_def)
  have n1: "\<not> (a < acc * 10 \<or> a > maxVal)" using a by (simp add: a_def)
  have "parseUintLoop maxVal acc ((d # ds) @ c # rest) = parseUintLoop maxVal a (ds @ c # rest)"
    by (simp only: append_Cons parseUintLoop.simps dd simp_thms if_False Let_def cut m n1)
  also have "\<dots> = (0, Some ErrSyntax)"
    using ds Cons.prems(2) fin Cons.prems(4) by (rule Cons.IH)
  finally show ?case .
qed

lemma parseUintLoop_ok_digits:
  "snd (parseUintLoop maxVal acc s) = None \<Longrightarrow> list_all isDigit s"
proof (induction s arbitrary: acc)
  case Nil
  then show ?case by simp
next
  case (Cons c cs)
  show ?case
  proof (cases "isDigit c")
    case False
    with Cons.prems show ?thesis by (simp add: isDigit_def)
  next
    case True
    then have cd: "48 \<le> (of_char c :: nat) \<and> (of_char c :: nat) \<le> 57" by (simp add: isDigit_def)
    from Cons.prems have "\<exists>n. snd (parseUintLoop maxVal n cs) = None"
      by (simp only: parseUintLoop.simps cd simp_thms if_False Let_def split: if_splits)
         (auto split: if_splits)
    with Cons.IH True show ?thesis by auto
  qed
qed

text \<open>The rendering of a number is made of digits and denotes the number.\<close>

lemma of_char_digitChar: "d < 10 \<Longrightarrow> (of_char (digitChar d) :: nat) = 48 + d"
  by (simp add: digitChar_def)

lemma isDigit_digitChar: "d < 10 \<Longrightarrow> isDigit (digitChar d)"
  by (simp add: isDigit_def of_char_digitChar)

lemma digits_all_digits: "list_all isDigit (digits n)"
proof (induction n rule: digits.induct)
  case (1 n)
  show ?case
  proof (cases "n < 10")
    case True
    then show ?thesis by (subst digits.simps) (simp add: isDigit_digitChar)
  next
    case False
    with 1 have "list_all isDigit (digits (n div 10))" by simp
    with False show ?thesis by (subst digits.simps) (simp add: isDigit_digitChar)
  qed
qed

lemma decimal_digits: "decimal acc (digits n) = acc * 10 ^ length (digits n) + n"
proof (induction n arbitrary: acc rule: digits.induct)
  case (1 n)
  show ?case
  proof (cases "n < 10")
    case True
    then have "digits n = [digitChar n]" by (subst digits.simps) simp
    with True show ?thesis by (simp add: of_char_digitChar)
  next
    case False
    then have d: "digits n = digits (n div 10) @ [digitChar (n mod 10)]"
      by (subst digits.simps) simp
    from False 1 have "decimal acc (digits (n div 10)) =
        acc * 10 ^ length (digits (n div 10)) + n div 10"
      by simp
    then have "decimal acc (digits n) =
        (acc * 10 ^ length (digits (n div 10)) + n div 10) * 10 + n mod 10"
      by (simp add: d decimal_append of_char_digitChar)
    also have "\<dots> = acc * 10 ^ length (digits n) + n"
      by (simp add: d algebra_simps)
    finally show ?thesis .
  qed
qed

lemma digits_length_upper: "n < 10 ^ k \<Longrightarrow> 0 < k \<Longrightarrow> length (digits n) \<le> k"
proof (induction k arbitrary: n)
  case 0
  then show ?case by simp
next
  case (Suc k)
  show ?case
  proof (cases "n < 10")
    case True
    then have "digits n = [digitChar n]" by (subst digits.simps) simp
    then show ?thesis by simp
  next
    case False
    then have d: "digits n = digits (n div 10) @ [digitChar (n mod 10)]"
      by (subst digits.simps) simp
    from False Suc.prems have k: "0 < k" by (cases k) simp_all
    from Suc.prems have "n div 10 < 10 ^ k" by (simp add: less_mult_imp_div_less mult.commute)
    then have "length (digits (n div 10)) \<le> k" using k by (rule Suc.IH)
    with d show ?thesis by simp
  qed
qed

lemma hd_digits_no_sign: "hd (digits n) \<noteq> CHR ''-'' \<and> hd (digits n) \<noteq> CHR ''+''"
proof -
  obtain c cs where d: "digits n = c # cs" using digits_nonempty [of n] by (cases "digits n") auto
  with digits_all_digits [of n] have "isDigit c" by simp
  then have "c \<noteq> CHR ''-'' \<and> c \<noteq> CHR ''+''" by (auto simp: isDigit_def)
  with d show ?thesis by simp
qed

text \<open>\<open>Atoi\<close> reads back what \<open>FormatInt\<close> renders, for every value of an \<^verbatim>\<open>int32\<close>.\<close>

lemma wrapSigned_int32:
  assumes "intSize = 32 \<or> intSize = 64" and "- (2 ^ 31) \<le> v" and "v < 2 ^ 31"
  shows "wrapSigned intSize v = v"
proof -
  from assms(1) have "(2 :: int) ^ 31 \<le> 2 ^ (intSize - 1)" by auto
  with assms(2,3) have lo: "0 \<le> v + 2 ^ (intSize - 1)" and hi: "v < 2 ^ (intSize - 1)"
    by simp_all
  from assms(1) have "(2 :: int) ^ intSize = 2 ^ (intSize - 1) + 2 ^ (intSize - 1)" by auto
  with hi have "v + 2 ^ (intSize - 1) < 2 ^ intSize" by simp
  with lo have "(v + 2 ^ (intSize - 1)) mod 2 ^ intSize = v + 2 ^ (intSize - 1)"
    by (rule mod_pos_pos_trivial)
  then show ?thesis by (simp add: wrapSigned_def)
qed

lemma Atoi_FormatInt:
  assumes I: "intSize = 32 \<or> intSize = 64" and lo: "- (2 ^ 31) \<le> v" and hi: "v < 2 ^ 31"
  shows "Atoi intSize (FormatInt v) = (v, None)"
proof -
  define n where "n = nat \<bar>v\<bar>"
  define ds where "ds = digits n"
  have F: "FormatInt v = (if v < 0 then CHR ''-'' # ds else ds)"
    by (auto simp: FormatInt_def ds_def n_def)
  have n: "n \<le> 2 ^ 31" using lo hi by (simp add: n_def nat_le_iff)
  have v: "v = (if v < 0 then - int n else int n)" by (simp add: n_def)
  have ds: "list_all isDigit ds" "ds \<noteq> []" "decimal 0 ds = n"
    "hd ds \<noteq> CHR ''-''" "hd ds \<noteq> CHR ''+''"
    by (simp_all add: ds_def digits_all_digits digits_nonempty decimal_digits hd_digits_no_sign)
  have fast0: "atoiFast 0 ds = Some (int n)"
    using atoiFast_digits [OF ds(1), of 0] ds(3) by simp
  have fast: "atoiFastPath (FormatInt v) = (v, None)"
  proof (cases "v < 0")
    case True
    with F have "FormatInt v = CHR ''-'' # ds" by simp
    with ds(2) fast0 v True show ?thesis by (simp add: atoiFastPath_def Let_def)
  next
    case False
    with F have "FormatInt v = ds" by simp
    with ds fast0 v False show ?thesis by (simp add: atoiFastPath_def Let_def)
  qed
  have "n < 2 ^ intSize - 1" using n I by auto
  then have "decimal 0 ds \<le> 2 ^ intSize - 1" by (simp add: ds(3))
  moreover have "(2 :: nat) ^ intSize - 1 < 2 ^ 64" using I by auto
  ultimately have "parseUintLoop (2 ^ intSize - 1) 0 ds = (n, None)"
    using parseUintLoop_digits [OF ds(1), of 0 "2 ^ intSize - 1"] ds(3) by simp
  then have U: "ParseUint intSize ds = (n, None)"
    using ds(2) by (simp add: ParseUint_def)
  have c: "(2 :: nat) ^ 31 \<le> 2 ^ (intSize - 1)" using I by auto
  have slow: "ParseInt intSize (FormatInt v) = (v, None)"
  proof (cases "v < 0")
    case True
    with F have f: "FormatInt v = CHR ''-'' # ds" by simp
    from True have "n \<le> 2 ^ (intSize - 1)" using n c by simp
    then have "\<not> n > 2 ^ (intSize - 1)" by simp
    with f U v True show ?thesis by (simp add: ParseInt_def Let_def)
  next
    case False
    with F have f: "FormatInt v = ds" by simp
    from False hi have "n < 2 ^ 31" by (simp add: n_def)
    with c have "\<not> n \<ge> 2 ^ (intSize - 1)" by simp
    with f U v False ds show ?thesis by (simp add: ParseInt_def Let_def)
  qed
  have "wrapSigned intSize v = v" using I lo hi by (rule wrapSigned_int32)
  with fast slow show ?thesis by (simp add: Atoi_def Let_def)
qed

text \<open>
  C9. For every value \<open>s\<close> of a \<open>Severity\<close> (every 32-bit integer, the negative ones
  included), on a platform with a 32-bit or a 64-bit \<^verbatim>\<open>int\<close>, setting a threshold from the
  string that \<open>String\<close> renders for \<open>s\<close> makes the threshold \<open>s\<close> and returns \<^verbatim>\<open>nil\<close>, whatever
  the threshold was before; the same holds when the flag parser does it through the hook.
\<close>

theorem Severity_String_Set_roundtrip:
  assumes "intSize = 32 \<or> intSize = 64"
  shows "Severity_Set intSize t (Severity_String s) = (s, None) \<and>
         logLevel (snd (fst (snd (step intSize (fl, g) (FlagLoglevel (Severity_String s)))))) = s"
proof -
  have "- (2 ^ 31) \<le> sint s" "sint s < 2 ^ 31"
    using sint_ge [of s] sint_lt [of s] by simp_all
  with assms have "Atoi intSize (FormatInt (sint s)) = (sint s, None)"
    by (rule Atoi_FormatInt)
  then show ?thesis
    by (simp add: Severity_Set_def Severity_String_def Severity_set_def)
qed

lemma Severity_String_examples:
  "Severity_String SeverityWarning = ''3''" "Severity_String (- 1) = ''-1''"
  by code_simp+

theorem Severity_String_Set_roundtrip_witness:
  "Severity_String SeverityWarning = ''3'' \<and>
   Severity_Set 64 SeverityLast ''3'' = (SeverityWarning, None) \<and>
   Severity_String (- 1) = ''-1'' \<and>
   Severity_Set 32 SeverityLast ''-1'' = (- 1, None)"
  using Severity_String_Set_roundtrip [of 64 SeverityLast SeverityWarning]
        Severity_String_Set_roundtrip [of 32 SeverityLast "- 1"]
  by (simp add: Severity_String_examples)

text \<open>What \<open>Atoi\<close> returns for a string that is not a base-10 integer.\<close>

lemma dropSign_Cons:
  "s \<noteq> [] \<Longrightarrow> (if hd s = CHR ''-'' \<or> hd s = CHR ''+'' then tl s else s) = dropSign s"
  "s \<noteq> [] \<Longrightarrow> (if hd s = CHR ''+'' \<or> hd s = CHR ''-'' then tl s else s) = dropSign s"
  by (auto simp: dropSign_def)

lemma wrapSigned_0: "intSize = 32 \<or> intSize = 64 \<Longrightarrow> wrapSigned intSize 0 = 0"
  using wrapSigned_int32 [of intSize 0] by simp

lemma ParseUint_malformed:
  assumes I: "intSize = 32 \<or> intSize = 64"
    and M: "u = [] \<or> \<not> list_all isDigit u"
    and D: "decimal 0 (takeWhile isDigit u) < 2 ^ intSize"
  shows "ParseUint intSize u = (0, Some ErrSyntax)"
proof (cases "u = []")
  case True
  then show ?thesis by (simp add: ParseUint_def)
next
  case False
  with M have nd: "\<not> list_all isDigit u" by simp
  define ds where "ds = takeWhile isDigit u"
  define r where "r = dropWhile isDigit u"
  from nd have "r \<noteq> []" by (simp add: r_def list_all_iff)
  then obtain c rest where r: "r = c # rest" by (cases r) auto
  then have c: "\<not> isDigit c" using hd_dropWhile [of isDigit u] by (simp add: r_def)
  have "u = ds @ r" unfolding ds_def r_def by simp
  then have u: "u = ds @ c # rest" by (simp only: r)
  have dd: "list_all isDigit ds" by (simp add: ds_def list_all_iff) (meson set_takeWhileD)
  have "decimal 0 ds \<le> 2 ^ intSize - 1" using D by (simp add: ds_def)
  moreover have "(2 :: nat) ^ intSize - 1 < 2 ^ 64" using I by auto
  ultimately have "parseUintLoop (2 ^ intSize - 1) 0 (ds @ c # rest) = (0, Some ErrSyntax)"
    using parseUintLoop_stops_at_non_digit [OF dd c] by blast
  with False u show ?thesis by (simp add: ParseUint_def)
qed

lemma Atoi_malformed:
  assumes I: "intSize = 32 \<or> intSize = 64"
    and M: "\<not> wellFormedInt s"
    and D: "decimal 0 (takeWhile isDigit (dropSign s)) < 2 ^ intSize"
  shows "Atoi intSize s = (0, Some ErrSyntax)"
proof -
  from M have u: "dropSign s = [] \<or> \<not> list_all isDigit (dropSign s)"
    by (auto simp: wellFormedInt_def)
  have slow: "ParseInt intSize s = (0, Some ErrSyntax)"
  proof (cases "s = []")
    case True
    then show ?thesis by (simp add: ParseInt_def)
  next
    case False
    have "ParseUint intSize (dropSign s) = (0, Some ErrSyntax)"
      using I u D by (rule ParseUint_malformed)
    with False show ?thesis by (simp add: ParseInt_def Let_def dropSign_Cons)
  qed
  have fast: "atoiFastPath s = (0, Some ErrSyntax)" if "s \<noteq> []"
  proof (cases "hd s = CHR ''-'' \<or> hd s = CHR ''+''")
    case True
    with that have t: "dropSign s = tl s" by (auto simp: dropSign_def)
    show ?thesis
    proof (cases "tl s = []")
      case True
      with \<open>hd s = CHR ''-'' \<or> hd s = CHR ''+''\<close> show ?thesis
        by (auto simp: atoiFastPath_def Let_def)
    next
      case False
      with u t have "atoiFast 0 (tl s) = None" by (simp add: atoiFast_not_digits)
      with \<open>hd s = CHR ''-'' \<or> hd s = CHR ''+''\<close> show ?thesis
        by (auto simp: atoiFastPath_def Let_def)
    qed
  next
    case False
    with that have "dropSign s = s" by (auto simp: dropSign_def)
    with u that have "atoiFast 0 s = None" by (simp add: atoiFast_not_digits)
    with False show ?thesis by (auto simp: atoiFastPath_def Let_def)
  qed
  show ?thesis
  proof (cases "s = []")
    case True
    with slow wrapSigned_0 [OF I] show ?thesis by (simp add: Atoi_def Let_def)
  next
    case False
    with fast slow wrapSigned_0 [OF I] show ?thesis by (simp add: Atoi_def Let_def)
  qed
qed

lemma Atoi_syntax_zero:
  assumes I: "intSize = 32 \<or> intSize = 64" and E: "snd (Atoi intSize s) = Some ErrSyntax"
  shows "fst (Atoi intSize s) = 0"
proof (cases "(intSize = 32 \<and> 0 < length s \<and> length s < 10) \<or>
              (intSize = 64 \<and> 0 < length s \<and> length s < 19)")
  case True
  then have "Atoi intSize s = atoiFastPath s" by (auto simp: Atoi_def Let_def)
  with E show ?thesis
    by (auto simp: atoiFastPath_def Let_def split: if_splits option.splits)
next
  case False
  obtain un err where U: "ParseUint intSize (dropSign s) = (un, err)"
    by (cases "ParseUint intSize (dropSign s)")
  have "snd (ParseInt intSize s) = Some ErrSyntax \<Longrightarrow> fst (ParseInt intSize s) = 0"
    by (cases "s = []") (auto simp: ParseInt_def Let_def dropSign_Cons U split: if_splits)
  with False E wrapSigned_0 [OF I] show ?thesis
    by (auto simp: Atoi_def Let_def split: prod.splits)
qed

section \<open>Init and Set return no error\<close>

lemma Init_never_returns_error: "fst (Init app lvl fac st) \<noteq> Return (Some err)"
  by (simp add: Init_def Let_def)

lemma Init_fresh:
  assumes "''syslog'' \<notin> fl" "''logfile'' \<notin> fl" "''loglevel'' \<notin> fl"
  shows "Init app lvl fac (fl, g) =
           (Return None, insert ''loglevel'' (insert ''logfile'' (insert ''syslog'' fl)),
            g\<lparr>logLevel := lvl, appName := app,
              syslogFacility := (if fac = [] then ''DAEMON'' else fac),
              useSyslog := Some False, fileName := Some []\<rparr>)"
  using assms by (simp add: Init_def Let_def Severity_set_def)

text \<open>
  C8, as amended. \<open>Init\<close> never returns an error, and for every combination of arguments
  it returns \<^verbatim>\<open>nil\<close> when none of its three flag names is defined yet, having stored the
  threshold, the name and the facility (\<open>DAEMON\<close> for an empty one) and registered the
  three flags. \<open>Set\<close> returns \<^verbatim>\<open>nil\<close> for every string. On a platform with a 32-bit or 64-bit
  \<^verbatim>\<open>int\<close>, the threshold becomes 0 whenever \<open>Atoi\<close> reports a syntax error, and it does so for
  every string that is not a base-10 integer, provided the decimal digits the string
  starts with (after an optional sign) do not exceed the dropSign range of the \<^verbatim>\<open>int\<close>.
\<close>

theorem Init_and_Set_return_nil:
  "(\<forall>err. fst (Init app lvl fac st) \<noteq> Return (Some err)) \<and>
   (''syslog'' \<notin> fl \<and> ''logfile'' \<notin> fl \<and> ''loglevel'' \<notin> fl \<longrightarrow>
      Init app lvl fac (fl, g) =
        (Return None, insert ''loglevel'' (insert ''logfile'' (insert ''syslog'' fl)),
         g\<lparr>logLevel := lvl, appName := app,
           syslogFacility := (if fac = [] then ''DAEMON'' else fac),
           useSyslog := Some False, fileName := Some []\<rparr>)) \<and>
   snd (Severity_Set intSize t strVal) = None \<and>
   ((intSize = 32 \<or> intSize = 64) \<and> snd (Atoi intSize strVal) = Some ErrSyntax \<longrightarrow>
      fst (Severity_Set intSize t strVal) = 0) \<and>
   ((intSize = 32 \<or> intSize = 64) \<and> \<not> wellFormedInt strVal \<and>
    decimal 0 (takeWhile isDigit (dropSign strVal)) < 2 ^ intSize \<longrightarrow>
      fst (Severity_Set intSize t strVal) = 0)"
proof -
  have "fst (Severity_Set intSize t strVal) = 0"
    if "intSize = 32 \<or> intSize = 64" "snd (Atoi intSize strVal) = Some ErrSyntax"
    using Atoi_syntax_zero [OF that] by (simp add: Severity_Set_def Severity_set_def)
  moreover have "fst (Severity_Set intSize t strVal) = 0"
    if "intSize = 32 \<or> intSize = 64" "\<not> wellFormedInt strVal"
      "decimal 0 (takeWhile isDigit (dropSign strVal)) < 2 ^ intSize"
    using Atoi_malformed [OF that] by (simp add: Severity_Set_def Severity_set_def)
  moreover have "snd (Severity_Set intSize t strVal) = None"
    by (simp add: Severity_Set_def)
  ultimately show ?thesis
    using Init_never_returns_error [of app lvl fac st] Init_fresh [of fl app lvl fac g]
    by blast
qed

lemma malformed_examples:
  "\<not> wellFormedInt ''12a''" "decimal 0 (takeWhile isDigit (dropSign ''12a'')) = 12"
  "\<not> wellFormedInt ''99999999999999999999x''" "\<not> wellFormedInt ''99999999999x''"
  by (simp_all add: wellFormedInt_def dropSign_def isDigit_def)

lemma Atoi_examples:
  "Atoi 64 ''12a'' = (0, Some ErrSyntax)"
  "Atoi 64 ''99999999999999999999x'' = (9223372036854775807, Some ErrRange)"
  "Atoi 32 ''99999999999x'' = (2147483647, Some ErrRange)"
  by (simp_all add: Atoi_def atoiFastPath_def ParseInt_def ParseUint_def Let_def cutoff64_def
      wrapSigned_def)

theorem Init_and_Set_return_nil_witness:
  "Init ''myapp'' SeverityWarning [] ({}, globals0) =
     (Return None, {''loglevel'', ''logfile'', ''syslog''},
      globals0\<lparr>logLevel := SeverityWarning, appName := ''myapp'', syslogFacility := ''DAEMON'',
        useSyslog := Some False, fileName := Some []\<rparr>) \<and>
   \<not> wellFormedInt ''12a'' \<and> snd (Atoi 64 ''12a'') = Some ErrSyntax \<and>
   decimal 0 (takeWhile isDigit (dropSign ''12a'')) < 2 ^ 64 \<and>
   Severity_Set 64 SeverityLast ''12a'' = (0, None)"
proof -
  have d: "decimal 0 (takeWhile isDigit (dropSign ''12a'')) < 2 ^ 64"
    by (simp add: malformed_examples)
  have e: "snd (Atoi 64 ''12a'') = Some ErrSyntax" by (simp add: Atoi_examples)
  note r = Init_and_Set_return_nil
             [where fl = "{}" and app = "''myapp''" and lvl = SeverityWarning and fac = "[]"
                and g = globals0 and intSize = 64 and t = SeverityLast and strVal = "''12a''"]
  from r have "Init ''myapp'' SeverityWarning [] ({}, globals0) =
     (Return None, {''loglevel'', ''logfile'', ''syslog''},
      globals0\<lparr>logLevel := SeverityWarning, appName := ''myapp'', syslogFacility := ''DAEMON'',
        useSyslog := Some False, fileName := Some []\<rparr>)"
    by simp
  moreover from r d malformed_examples(1) have "fst (Severity_Set 64 SeverityLast ''12a'') = 0"
    by blast
  moreover from r have "snd (Severity_Set 64 SeverityLast ''12a'') = None" by blast
  ultimately show ?thesis using d e malformed_examples(1)
    by (simp add: prod_eq_iff)
qed

text \<open>
  C8 as stated fails twice. A string that is not a base-10 integer, but starts with more
  digits than an \<^verbatim>\<open>int\<close> holds, sets a threshold that is not zero: \<open>Atoi\<close> stops with a range
  error and the bound of the \<^verbatim>\<open>int\<close> before it reaches the malformed byte, and \<open>Set\<close> keeps
  the low 32 bits of that bound. And a second call of \<open>Init\<close> does not return: the flag
  package panics on the name that the first call defined.
\<close>

theorem Set_malformed_not_zero:
  "\<not> wellFormedInt ''99999999999999999999x'' \<and>
   Severity_Set 64 SeverityLast ''99999999999999999999x'' = (- 1, None) \<and>
   \<not> wellFormedInt ''99999999999x'' \<and>
   Severity_Set 32 SeverityLast ''99999999999x'' = (2147483647, None) \<and>
   fst (Init ''myapp'' SeverityDebug [] (snd (Init ''myapp'' SeverityDebug [] ({}, globals0)))) =
     Panic (FlagRedefined ''syslog'')"
  by (simp add: malformed_examples Severity_Set_def Severity_set_def Atoi_examples Init_example)
     (simp add: Init_def Let_def)

end
